theory Spec2Isabelle
  imports Main
begin

section \<open>Raw memory, element operations and the Memory Provider\<close>

text \<open>
  The development embeds \<^verbatim>\<open>container::vector\<close> of \<^verbatim>\<open>src/vector.h\<close>.

  A block of raw memory is a list of slots. A slot holds \<open>Some x\<close> when an element with
  value \<open>x\<close> has been constructed in it, and \<open>None\<close> when its content is indeterminate
  (never constructed, or destroyed). The code reads indeterminate slots in several places
  (\<^verbatim>\<open>construct(m_vector + size(), m_vector[size()])\<close>); copying an indeterminate value
  gives an indeterminate value. Which slots are live is tracked by \<^verbatim>\<open>m_size\<close> only,
  as in the code.

  An access through a null pointer, to a released block or outside the bounds of a block
  is undefined behaviour in C++; the model reports it as \<open>InvalidAccess\<close>.
  A failed \<^verbatim>\<open>assert\<close> is reported as \<open>AssertionFailure\<close>.

  Element construction and copy assignment may throw. The field \<open>budget\<close> of the memory
  says how many potentially throwing element operations succeed before one throws
  (\<open>None\<close>: none ever throws). Within one call the first throw ends the call, so every
  behaviour of a call is the behaviour at some budget.

  The field \<open>destroyed\<close> logs the content of every slot on which a destructor is run.

  \<^verbatim>\<open>std::size_t\<close> values are natural numbers: sizes and capacities count the slots of
  blocks that exist in memory, far below \<open>2 ^ 64\<close>, where the code's additions and
  doublings do not wrap around. The Memory Provider is
  \<^verbatim>\<open>std::allocator\<close>-like: it never runs out of memory, it ignores the size
  passed to \<^verbatim>\<open>deallocate\<close>, and releasing the null pointer does nothing.
\<close>

datatype error =
  OutOfRange | LengthExceeded | ElementConstructionFailure | AssertionFailure | InvalidAccess

type_synonym addr = nat

type_synonym 'a slot = "'a option"

record 'a memory =
  blocks :: "addr \<Rightarrow> 'a slot list option"
  next_addr :: addr
  budget :: "nat option"
  destroyed :: "'a slot list"

record traits =
  nothrow_move_constructible :: bool
  copy_constructible :: bool
  propagate_on_container_copy_assignment :: bool
  propagate_on_container_move_assignment :: bool
  propagate_on_container_swap :: bool
  is_always_equal :: bool

definition bind_err :: "error + 'b \<Rightarrow> ('b \<Rightarrow> error + 'c) \<Rightarrow> error + 'c" where
  "bind_err r f = (case r of Inl e \<Rightarrow> Inl e | Inr x \<Rightarrow> f x)"

definition charge :: "'a memory \<Rightarrow> error + 'a memory" where
  "charge mem =
     (case budget mem of
        None \<Rightarrow> Inr mem
      | Some 0 \<Rightarrow> Inl ElementConstructionFailure
      | Some (Suc n) \<Rightarrow> Inr (mem\<lparr>budget := Some n\<rparr>))"

definition read_slot :: "addr option \<Rightarrow> nat \<Rightarrow> 'a memory \<Rightarrow> error + 'a slot" where
  "read_slot p i mem =
     (case p of
        None \<Rightarrow> Inl InvalidAccess
      | Some a \<Rightarrow>
          (case blocks mem a of
             None \<Rightarrow> Inl InvalidAccess
           | Some b \<Rightarrow> if i < length b then Inr (b ! i) else Inl InvalidAccess))"

definition write_slot :: "addr option \<Rightarrow> nat \<Rightarrow> 'a slot \<Rightarrow> 'a memory \<Rightarrow> error + 'a memory" where
  "write_slot p i x mem =
     (case p of
        None \<Rightarrow> Inl InvalidAccess
      | Some a \<Rightarrow>
          (case blocks mem a of
             None \<Rightarrow> Inl InvalidAccess
           | Some b \<Rightarrow>
               if i < length b then Inr (mem\<lparr>blocks := (blocks mem)(a := Some (b[i := x]))\<rparr>)
               else Inl InvalidAccess))"

text \<open>\<^verbatim>\<open>allocator_traits::construct(alloc, p + i, x)\<close> with a copy of \<open>x\<close>.\<close>

definition traits_construct_copy ::
  "addr option \<Rightarrow> nat \<Rightarrow> 'a slot \<Rightarrow> 'a memory \<Rightarrow> error + 'a memory" where
  "traits_construct_copy p i x mem = bind_err (charge mem) (write_slot p i x)"

text \<open>
  \<^verbatim>\<open>allocator_traits::construct(alloc, p + i, std::move(x))\<close>: it cannot throw when
  the element type is nothrow move constructible.
\<close>

definition traits_construct_move ::
  "traits \<Rightarrow> addr option \<Rightarrow> nat \<Rightarrow> 'a slot \<Rightarrow> 'a memory \<Rightarrow> error + 'a memory" where
  "traits_construct_move tr p i x mem =
     (if nothrow_move_constructible tr then write_slot p i x mem
      else bind_err (charge mem) (write_slot p i x))"

text \<open>The assignments \<^verbatim>\<open>p[i] = x\<close> and \<^verbatim>\<open>p[i] = std::move(x)\<close>.\<close>

definition assign_copy ::
  "addr option \<Rightarrow> nat \<Rightarrow> 'a slot \<Rightarrow> 'a memory \<Rightarrow> error + 'a memory" where
  "assign_copy p i x mem = bind_err (charge mem) (write_slot p i x)"

definition assign_move ::
  "traits \<Rightarrow> addr option \<Rightarrow> nat \<Rightarrow> 'a slot \<Rightarrow> 'a memory \<Rightarrow> error + 'a memory" where
  "assign_move tr p i x mem =
     (if nothrow_move_constructible tr then write_slot p i x mem
      else bind_err (charge mem) (write_slot p i x))"

text \<open>\<^verbatim>\<open>allocator_traits::destroy(alloc, p + i)\<close>.\<close>

definition traits_destroy :: "addr option \<Rightarrow> nat \<Rightarrow> 'a memory \<Rightarrow> error + 'a memory" where
  "traits_destroy p i mem =
     bind_err (read_slot p i mem) (\<lambda>x.
     bind_err (write_slot p i None mem) (\<lambda>mem'.
       Inr (mem'\<lparr>destroyed := destroyed mem' @ [x]\<rparr>)))"

text \<open>\<^verbatim>\<open>allocator_traits::allocate(alloc, n)\<close>: a fresh block of \<open>n\<close> indeterminate slots.\<close>

definition traits_allocate :: "nat \<Rightarrow> 'a memory \<Rightarrow> addr \<times> 'a memory" where
  "traits_allocate n mem =
     (next_addr mem,
      mem\<lparr>blocks := (blocks mem)(next_addr mem := Some (replicate n None)),
          next_addr := Suc (next_addr mem)\<rparr>)"

text \<open>\<^verbatim>\<open>allocator_traits::deallocate(alloc, p, n)\<close>.\<close>

definition traits_deallocate :: "addr option \<Rightarrow> 'a memory \<Rightarrow> error + 'a memory" where
  "traits_deallocate p mem =
     (case p of
        None \<Rightarrow> Inr mem
      | Some a \<Rightarrow>
          (case blocks mem a of
             None \<Rightarrow> Inl InvalidAccess
           | Some b \<Rightarrow> Inr (mem\<lparr>blocks := (blocks mem)(a := None)\<rparr>)))"

text \<open>
  A counting loop \<^verbatim>\<open>for (index = i; index < bound; ++index) body\<close>. The result is the
  exception that left the loop (if any), the index reached, and the state.
\<close>

function for_loop ::
  "nat \<Rightarrow> nat \<Rightarrow> (nat \<Rightarrow> 's \<Rightarrow> error + 's) \<Rightarrow> 's \<Rightarrow> error option \<times> nat \<times> 's" where
  "for_loop index bound body s =
     (if index < bound then
        (case body index s of
           Inl e \<Rightarrow> (Some e, index, s)
         | Inr s' \<Rightarrow> for_loop (Suc index) bound body s')
      else (None, index, s))"
  by pat_completeness auto
termination
  by (relation "measure (\<lambda>(index, bound, body, s). bound - index)") auto

declare for_loop.simps [simp del]

text \<open>A \<^verbatim>\<open>catch (...) { cleanup; throw; }\<close> handler: the cleanup loop, then the rethrow.\<close>

definition cleanup_rethrow :: "error \<Rightarrow> error option \<times> nat \<times> 's \<Rightarrow> error option \<times> 's" where
  "cleanup_rethrow e r =
     (case r of (Some e', _, s) \<Rightarrow> (Some e', s) | (None, _, s) \<Rightarrow> (Some e, s))"

text \<open>
  The library algorithms \<^verbatim>\<open>std::copy\<close>, \<^verbatim>\<open>std::move\<close> and
  \<^verbatim>\<open>std::move_backward\<close> on pointers into one block, as
  the standard specifies them: \<open>last - first\<close> assignments, in order.
\<close>

definition std_copy :: "addr option \<Rightarrow> nat \<Rightarrow> nat \<Rightarrow> nat \<Rightarrow> 'a memory \<Rightarrow> error option \<times> 'a memory" where
  "std_copy p first last' d_first mem =
     (case for_loop 0 (last' - first)
             (\<lambda>i m. bind_err (read_slot p (first + i) m) (\<lambda>x. assign_copy p (d_first + i) x m)) mem
      of (e, _, mem') \<Rightarrow> (e, mem'))"

definition std_move ::
  "traits \<Rightarrow> addr option \<Rightarrow> nat \<Rightarrow> nat \<Rightarrow> nat \<Rightarrow> 'a memory \<Rightarrow> error option \<times> 'a memory" where
  "std_move tr p first last' d_first mem =
     (case for_loop 0 (last' - first)
             (\<lambda>i m. bind_err (read_slot p (first + i) m) (\<lambda>x. assign_move tr p (d_first + i) x m)) mem
      of (e, _, mem') \<Rightarrow> (e, mem'))"

definition std_move_backward ::
  "traits \<Rightarrow> addr option \<Rightarrow> nat \<Rightarrow> nat \<Rightarrow> nat \<Rightarrow> 'a memory \<Rightarrow> error option \<times> 'a memory" where
  "std_move_backward tr p first last' d_last mem =
     (case for_loop 0 (last' - first)
             (\<lambda>i m. if d_last \<le> i then Inl InvalidAccess
                    else bind_err (read_slot p (last' - Suc i) m)
                           (\<lambda>x. assign_move tr p (d_last - Suc i) x m)) mem
      of (e, _, mem') \<Rightarrow> (e, mem'))"

section \<open>The vector\<close>

text \<open>
  \<open>m_vector\<close> is the base address of the block (\<open>None\<close> is \<^verbatim>\<open>nullptr\<close>);
  \<open>m_allocator\<close> is the identity of the Memory Provider instance. A member function
  takes the vector and the memory and returns the exception it threw (if any) with the
  vector and the memory it leaves behind.

  An iterator into the vector is \<^verbatim>\<open>m_vector + index\<close> and is modelled by its index.
  \<^verbatim>\<open>std::distance(pos, begin())\<close> is \<^verbatim>\<open>begin() - pos\<close>, and the iterator's own
  \<^verbatim>\<open>operator-\<close> returns \<^verbatim>\<open>std::distance(m_iterator, other.m_iterator)\<close>, that is
  \<^verbatim>\<open>pos.m_iterator - begin().m_iterator\<close>: the index of \<open>pos\<close>.
\<close>

record vector =
  m_vector :: "addr option"
  m_capacity :: nat
  m_size :: nat
  m_allocator :: nat

type_synonym 'a res = "error option \<times> vector \<times> 'a memory"

definition and_then :: "'a res \<Rightarrow> (vector \<Rightarrow> 'a memory \<Rightarrow> 'a res) \<Rightarrow> 'a res" where
  "and_then r f = (case r of (Some e, v, mem) \<Rightarrow> (Some e, v, mem) | (None, v, mem) \<Rightarrow> f v mem)"

definition realloc_factor :: nat where
  "realloc_factor = 2"

definition reset :: "vector \<Rightarrow> vector" where
  "reset other = other\<lparr>m_vector := None, m_capacity := 0, m_size := 0\<rparr>"

definition allocate :: "nat \<Rightarrow> vector \<Rightarrow> 'a memory \<Rightarrow> 'a res" where
  "allocate capacity v mem =
     (case traits_allocate capacity mem of
        (p, mem') \<Rightarrow> (None, v\<lparr>m_capacity := capacity, m_vector := Some p\<rparr>, mem'))"

definition deallocate :: "nat \<Rightarrow> vector \<Rightarrow> 'a memory \<Rightarrow> 'a res" where
  "deallocate capacity v mem =
     (case traits_deallocate (m_vector v) mem of
        Inl e \<Rightarrow> (Some e, v, mem)
      | Inr mem' \<Rightarrow> (None, v\<lparr>m_capacity := 0, m_size := 0\<rparr>, mem'))"

definition reallocate :: "nat \<Rightarrow> nat \<Rightarrow> vector \<Rightarrow> 'a memory \<Rightarrow> 'a res" where
  "reallocate old_cap new_cap v mem = and_then (deallocate old_cap v mem) (allocate new_cap)"

definition construct :: "nat \<Rightarrow> 'a \<Rightarrow> vector \<Rightarrow> 'a memory \<Rightarrow> 'a res" where
  "construct sz val v mem =
     (case for_loop 0 sz (\<lambda>index. traits_construct_copy (m_vector v) index (Some val)) mem of
        (e, _, mem') \<Rightarrow> (e, v\<lparr>m_size := sz\<rparr>, mem'))"

definition destruct :: "nat \<Rightarrow> vector \<Rightarrow> 'a memory \<Rightarrow> 'a res" where
  "destruct sz v mem =
     (case for_loop 0 sz (\<lambda>index. traits_destroy (m_vector v) index) mem of
        (Some e, _, mem') \<Rightarrow> (Some e, v, mem')
      | (None, _, mem') \<Rightarrow> (None, v\<lparr>m_size := 0\<rparr>, mem'))"

definition construct_init_list :: "'a list \<Rightarrow> vector \<Rightarrow> 'a memory \<Rightarrow> 'a res" where
  "construct_init_list values v mem =
     (case for_loop 0 (length values)
             (\<lambda>index. traits_construct_copy (m_vector v) index (Some (values ! index))) mem of
        (e, _, mem') \<Rightarrow> (e, v\<lparr>m_size := length values\<rparr>, mem'))"

definition deallocate_and_destruct :: "nat \<Rightarrow> nat \<Rightarrow> vector \<Rightarrow> 'a memory \<Rightarrow> 'a res" where
  "deallocate_and_destruct capacity sz v mem = and_then (destruct sz v mem) (deallocate capacity)"

definition deallocate_destruct_keep_size_and_capacity ::
  "nat \<Rightarrow> nat \<Rightarrow> vector \<Rightarrow> 'a memory \<Rightarrow> 'a res" where
  "deallocate_destruct_keep_size_and_capacity sz capacity v mem =
     (case for_loop 0 (m_size v) (\<lambda>index. traits_destroy (m_vector v) index) mem of
        (Some e, _, mem1) \<Rightarrow> (Some e, v, mem1)
      | (None, _, mem1) \<Rightarrow>
          (case traits_deallocate (m_vector v) mem1 of
             Inl e \<Rightarrow> (Some e, v, mem1)
           | Inr mem2 \<Rightarrow> (None, v\<lparr>m_capacity := capacity, m_size := sz\<rparr>, mem2)))"

definition uninitialized_alloc_copy :: "vector \<Rightarrow> vector \<Rightarrow> 'a memory \<Rightarrow> 'a res" where
  "uninitialized_alloc_copy other v mem =
     (case for_loop 0 (m_size other)
             (\<lambda>index m. bind_err (read_slot (m_vector other) index m)
                          (\<lambda>x. traits_construct_copy (m_vector v) index x m)) mem of
        (e, _, mem') \<Rightarrow> (e, v\<lparr>m_size := m_size other\<rparr>, mem'))"

text \<open>
  \<^verbatim>\<open>uninitialized_alloc_move\<close> changes both vectors: the result holds \<open>this\<close>, then
  \<open>other\<close>.
\<close>

definition uninitialized_alloc_move ::
  "traits \<Rightarrow> vector \<Rightarrow> vector \<Rightarrow> 'a memory \<Rightarrow> error option \<times> vector \<times> vector \<times> 'a memory" where
  "uninitialized_alloc_move tr other v mem =
     (let v1 = v\<lparr>m_size := m_size other, m_capacity := m_capacity other\<rparr> in
      case for_loop 0 (m_size v1)
             (\<lambda>index m. bind_err (read_slot (m_vector other) index m)
                          (\<lambda>x. traits_construct_move tr (m_vector v1) index x m)) mem of
        (Some e, _, mem1) \<Rightarrow> (Some e, v1, other, mem1)
      | (None, _, mem1) \<Rightarrow>
          (case deallocate_and_destruct (m_capacity other) (m_size other) other mem1 of
             (Some e, other1, mem2) \<Rightarrow> (Some e, v1, other1, mem2)
           | (None, other1, mem2) \<Rightarrow> (None, v1, other1\<lparr>m_vector := None\<rparr>, mem2)))"

definition reallocate_strong_guarantee :: "traits \<Rightarrow> nat \<Rightarrow> vector \<Rightarrow> 'a memory \<Rightarrow> 'a res" where
  "reallocate_strong_guarantee tr capacity v mem =
     (case traits_allocate capacity mem of (tempVect, mem0) \<Rightarrow>
       (case
          (if nothrow_move_constructible tr \<or>
              \<not> nothrow_move_constructible tr \<and> \<not> copy_constructible tr
           then
             (case for_loop 0 (m_size v)
                     (\<lambda>index m. bind_err (read_slot (m_vector v) index m)
                                  (\<lambda>x. traits_construct_move tr (Some tempVect) index x m)) mem0 of
                (e, _, mem1) \<Rightarrow> (e, mem1))
           else
             (case for_loop 0 (m_size v)
                     (\<lambda>index m. bind_err (read_slot (m_vector v) index m)
                                  (\<lambda>x. traits_construct_copy (Some tempVect) index x m)) mem0 of
                (None, _, mem1) \<Rightarrow> (None, mem1)
              | (Some e, copiesMade, mem1) \<Rightarrow>
                  (case for_loop 0 copiesMade (\<lambda>index. traits_destroy (Some tempVect) index) mem1 of
                     (Some e', _, mem2) \<Rightarrow> (Some e', mem2)
                   | (None, _, mem2) \<Rightarrow>
                       (case traits_deallocate (Some tempVect) mem2 of
                          Inl e' \<Rightarrow> (Some e', mem2)
                        | Inr mem3 \<Rightarrow> (Some e, mem3)))))
        of
          (Some e, mem1) \<Rightarrow> (Some e, v, mem1)
        | (None, mem1) \<Rightarrow>
            and_then (deallocate_destruct_keep_size_and_capacity (m_size v) capacity v mem1)
              (\<lambda>v2 mem2. (None, v2\<lparr>m_vector := Some tempVect\<rparr>, mem2))))"

text \<open>
  The hand-written backward shift of \<^verbatim>\<open>shift_and_construct\<close>:
  \<^verbatim>\<open>while (current_pos++ != m_vector + size()) { *(--count_after_last_element) = *(--last_element); ++copies_made1; }\<close>
  with the three pointers as indices into the block. A pointer that would move before the
  start of the block is an invalid access.
\<close>

function shift_loop ::
  "addr option \<Rightarrow> nat \<Rightarrow> nat \<Rightarrow> nat \<Rightarrow> nat \<Rightarrow> nat \<Rightarrow> 'a memory
     \<Rightarrow> error option \<times> nat \<times> 'a memory" where
  "shift_loop p sz current_pos count_after_last_element last_element copies_made1 mem =
     (if current_pos \<noteq> sz then
        (if count_after_last_element = 0 \<or> last_element = 0 then
           (Some InvalidAccess, copies_made1, mem)
         else
           (case bind_err (read_slot p (last_element - 1) mem)
                   (\<lambda>x. assign_copy p (count_after_last_element - 1) x mem) of
              Inl e \<Rightarrow> (Some e, copies_made1, mem)
            | Inr mem' \<Rightarrow>
                shift_loop p sz (Suc current_pos) (count_after_last_element - 1)
                  (last_element - 1) (Suc copies_made1) mem'))
      else (None, copies_made1, mem))"
  by pat_completeness auto
termination
  by (relation "measure (\<lambda>(p, sz, current_pos, c, last_element, k, mem). last_element)") auto

declare shift_loop.simps [simp del]

text \<open>
  Its handler:
  \<^verbatim>\<open>while (copies_made1 != 0) { destroy(m_vector + size() + 1 + copies_made1); --copies_made1; }\<close>
\<close>

fun shift_cleanup :: "addr option \<Rightarrow> nat \<Rightarrow> nat \<Rightarrow> 'a memory \<Rightarrow> error + 'a memory" where
  "shift_cleanup p sz 0 mem = Inr mem"
| "shift_cleanup p sz (Suc k) mem =
     bind_err (traits_destroy p (sz + 1 + Suc k) mem) (shift_cleanup p sz k)"

text \<open>\<^verbatim>\<open>shift_and_construct(std::size_t index_pos, const Type& value, std::size_t count = 1)\<close>\<close>

definition shift_and_construct :: "nat \<Rightarrow> 'a \<Rightarrow> nat \<Rightarrow> vector \<Rightarrow> 'a memory \<Rightarrow> 'a res" where
  "shift_and_construct index_pos val count v mem =
     (let p = m_vector v; sz = m_size v in
      case for_loop 0 count
             (\<lambda>index m. bind_err (read_slot p (sz + index) m)
                          (\<lambda>x. traits_construct_copy p (sz + index) x m)) mem of
        (Some e, copies_made, mem1) \<Rightarrow>
          (case cleanup_rethrow e
                  (for_loop 0 copies_made (\<lambda>index. traits_destroy p (sz + index)) mem1) of
             (e', mem2) \<Rightarrow> (e', v, mem2))
      | (None, _, mem1) \<Rightarrow>
          (case shift_loop p sz index_pos (sz + count) sz 0 mem1 of
             (Some e, copies_made1, mem2) \<Rightarrow>
               (case shift_cleanup p sz copies_made1 mem2 of
                  Inl e' \<Rightarrow> (Some e', v, mem2)
                | Inr mem3 \<Rightarrow> (Some e, v, mem3))
           | (None, _, mem2) \<Rightarrow>
               (case for_loop 0 count (\<lambda>index. traits_destroy p (index_pos + index)) mem2 of
                  (Some e, _, mem3) \<Rightarrow> (Some e, v, mem3)
                | (None, _, mem3) \<Rightarrow>
                    (case for_loop 0 count
                            (\<lambda>index. traits_construct_copy p (index_pos + index) (Some val)) mem3 of
                       (Some e, copies_made2, mem4) \<Rightarrow>
                         (case cleanup_rethrow e
                                 (for_loop 0 copies_made2
                                    (\<lambda>index. traits_destroy p (sz + index)) mem4) of
                            (e', mem5) \<Rightarrow> (e', v, mem5))
                     | (None, _, mem4) \<Rightarrow> (None, v\<lparr>m_size := sz + count\<rparr>, mem4)))))"

text \<open>\<^verbatim>\<open>shift_and_construct(std::size_t index_pos, Type&& value)\<close>\<close>

definition shift_and_construct_rv :: "traits \<Rightarrow> nat \<Rightarrow> 'a \<Rightarrow> vector \<Rightarrow> 'a memory \<Rightarrow> 'a res" where
  "shift_and_construct_rv tr index_pos val v mem =
     (if nothrow_move_constructible tr \<or>
         (\<not> nothrow_move_constructible tr \<and> \<not> copy_constructible tr)
      then
        (let p = m_vector v; sz = m_size v in
         case bind_err (read_slot p sz mem) (\<lambda>x. traits_construct_move tr p sz x mem) of
           Inl e \<Rightarrow> (Some e, v, mem)
         | Inr mem1 \<Rightarrow>
             (case std_move_backward tr p index_pos sz (sz + 1) mem1 of
                (Some e, mem2) \<Rightarrow> (Some e, v, mem2)
              | (None, mem2) \<Rightarrow>
                  (case traits_construct_move tr p index_pos (Some val) mem2 of
                     Inl e \<Rightarrow> (Some e, v, mem2)
                   | Inr mem3 \<Rightarrow> (None, v\<lparr>m_size := sz + 1\<rparr>, mem3))))
      else shift_and_construct index_pos val 1 v mem)"

text \<open>\<^verbatim>\<open>insert_end_strong_guarantee(const Type& value)\<close>\<close>

definition insert_end_strong_guarantee :: "'a \<Rightarrow> vector \<Rightarrow> 'a memory \<Rightarrow> 'a res" where
  "insert_end_strong_guarantee val v mem =
     (case traits_construct_copy (m_vector v) (m_size v) (Some val) mem of
        Inl e \<Rightarrow> (Some e, v, mem)
      | Inr mem' \<Rightarrow> (None, v\<lparr>m_size := m_size v + 1\<rparr>, mem'))"

subsection \<open>Construction, copy and move assignment\<close>

text \<open>\<^verbatim>\<open>vector()\<close> and \<^verbatim>\<open>vector(init_list_type values)\<close>, with the allocator given.\<close>

definition vector_default :: "nat \<Rightarrow> vector" where
  "vector_default alloc = \<lparr>m_vector = None, m_capacity = 0, m_size = 0, m_allocator = alloc\<rparr>"

definition vector_init_list :: "'a list \<Rightarrow> nat \<Rightarrow> 'a memory \<Rightarrow> 'a res" where
  "vector_init_list values alloc mem =
     and_then (allocate (length values) (vector_default alloc) mem) (construct_init_list values)"

text \<open>
  \<^verbatim>\<open>operator=(const vector& other)\<close>; \<open>self\<close> says that \<open>other\<close> is the vector
  itself (\<^verbatim>\<open>this == &other\<close>).
\<close>

definition copy_assign :: "traits \<Rightarrow> bool \<Rightarrow> vector \<Rightarrow> vector \<Rightarrow> 'a memory \<Rightarrow> 'a res" where
  "copy_assign tr self other v mem =
     (if self then (None, v, mem)
      else if m_vector other \<noteq> None then
        (let v1 = (if propagate_on_container_copy_assignment tr
                   then v\<lparr>m_allocator := m_allocator other\<rparr> else v) in
         and_then
           (if m_size other > m_capacity v1 then reallocate (m_capacity v1) (m_size other) v1 mem
            else (None, v1, mem))
           (uninitialized_alloc_copy other))
      else (None, v\<lparr>m_vector := None, m_size := 0\<rparr>, mem))"

text \<open>\<^verbatim>\<open>operator=(vector&& other)\<close>: the result holds \<open>this\<close>, then \<open>other\<close>.\<close>

definition move_assign ::
  "traits \<Rightarrow> bool \<Rightarrow> vector \<Rightarrow> vector \<Rightarrow> 'a memory
     \<Rightarrow> error option \<times> vector \<times> vector \<times> 'a memory" where
  "move_assign tr self other v mem =
     (if self then (None, v, other, mem)
      else
        (case
           (if propagate_on_container_move_assignment tr then
              (case deallocate_and_destruct (m_capacity v) (m_size v) v mem of
                 (Some e, v1, mem1) \<Rightarrow> (Some e, v1, other, mem1)
               | (None, v1, mem1) \<Rightarrow>
                   (None, v1\<lparr>m_allocator := m_allocator other, m_vector := m_vector other\<rparr>,
                    reset other, mem1))
            else if m_allocator v = m_allocator other then
              (case deallocate_and_destruct (m_capacity v) (m_size v) v mem of
                 (Some e, v1, mem1) \<Rightarrow> (Some e, v1, other, mem1)
               | (None, v1, mem1) \<Rightarrow> (None, v1\<lparr>m_vector := m_vector other\<rparr>, reset other, mem1))
            else
              (case and_then (destruct (m_size v) v mem)
                      (\<lambda>v1. reallocate (m_capacity v1) (m_capacity other) v1) of
                 (Some e, v1, mem1) \<Rightarrow> (Some e, v1, other, mem1)
               | (None, v1, mem1) \<Rightarrow> uninitialized_alloc_move tr other v1 mem1))
         of
           (Some e, v1, other1, mem1) \<Rightarrow> (Some e, v1, other1, mem1)
         | (None, v1, other1, mem1) \<Rightarrow>
             (None, v1\<lparr>m_size := m_size other1, m_capacity := m_capacity other1\<rparr>, other1, mem1)))"

subsection \<open>Access and capacity\<close>

definition size_vec :: "vector \<Rightarrow> nat" where
  "size_vec v = m_size v"

definition capacity :: "vector \<Rightarrow> nat" where
  "capacity v = m_capacity v"

text \<open>
  \<^verbatim>\<open>max_size()\<close> is \<^verbatim>\<open>std::numeric_limits<std::ptrdiff_t>::max()\<close>, with 64-bit
  \<^verbatim>\<open>std::ptrdiff_t\<close> and \<^verbatim>\<open>std::size_t\<close>.
\<close>

definition max_size :: nat where
  "max_size = 2 ^ 63 - 1"

definition empty_vec :: "vector \<Rightarrow> bool" where
  "empty_vec v = (m_size v = 0)"

definition is_null :: "vector \<Rightarrow> bool" where
  "is_null v = (m_vector v = None)"

text \<open>\<^verbatim>\<open>begin()\<close> is the pointer \<^verbatim>\<open>m_vector\<close>, the address of the slot of index 0.\<close>

definition begin_vec :: "vector \<Rightarrow> addr option" where
  "begin_vec v = m_vector v"

definition data :: "vector \<Rightarrow> addr option" where
  "data v = (if size_vec v \<noteq> 0 then m_vector v else None)"

definition reserve :: "traits \<Rightarrow> nat \<Rightarrow> vector \<Rightarrow> 'a memory \<Rightarrow> 'a res" where
  "reserve tr cap v mem =
     (if cap > max_size then (Some LengthExceeded, v, mem)
      else if cap > m_capacity v then reallocate_strong_guarantee tr cap v mem
      else (None, v, mem))"

subsection \<open>Modifiers\<close>

text \<open>
  A member function that returns an iterator returns its index on normal completion.
\<close>

type_synonym 'a res_it = "(error + nat) \<times> vector \<times> 'a memory"

definition returning :: "nat \<Rightarrow> 'a res \<Rightarrow> 'a res_it" where
  "returning it r = (case r of (Some e, v, mem) \<Rightarrow> (Inl e, v, mem) | (None, v, mem) \<Rightarrow> (Inr it, v, mem))"

definition completed :: "'a res_it \<Rightarrow> 'a res" where
  "completed r = (case r of (Inl e, v, mem) \<Rightarrow> (Some e, v, mem) | (Inr it, v, mem) \<Rightarrow> (None, v, mem))"

definition clear :: "vector \<Rightarrow> 'a memory \<Rightarrow> 'a res" where
  "clear v mem = destruct (m_size v) v mem"

text \<open>
  The capacity loop of \<^verbatim>\<open>emplace\<close> and \<^verbatim>\<open>insert\<close>:
  \<^verbatim>\<open>do { if (m_capacity == 0) m_capacity = 1; m_capacity *= constants::realloc_factor; } while (m_capacity < required);\<close>
\<close>

function grow_capacity :: "nat \<Rightarrow> nat \<Rightarrow> nat" where
  "grow_capacity cap required =
     (let c = (if cap = 0 then 1 else cap) * realloc_factor in
      if c < required then grow_capacity c required else c)"
  by pat_completeness auto
termination
  by (relation "measure (\<lambda>(cap, required). required - cap)") (auto simp: realloc_factor_def)

declare grow_capacity.simps [simp del]

text \<open>
  The call \<^verbatim>\<open>shift_and_construct(pos_index_position, std::forward<Args>(args)...)\<close> of
  \<^verbatim>\<open>emplace\<close> with one argument of the element type: an rvalue selects the
  \<^verbatim>\<open>Type&&\<close> overload, an lvalue the \<^verbatim>\<open>const Type&\<close> overload with \<open>count = 1\<close>.
\<close>

definition shift_and_construct_args ::
  "traits \<Rightarrow> bool \<Rightarrow> nat \<Rightarrow> 'a \<Rightarrow> vector \<Rightarrow> 'a memory \<Rightarrow> 'a res" where
  "shift_and_construct_args tr rvalue index_pos val v mem =
     (if rvalue then shift_and_construct_rv tr index_pos val v mem
      else shift_and_construct index_pos val 1 v mem)"

text \<open>
  \<^verbatim>\<open>emplace(const iterator pos, Args&&... args)\<close> with one argument of the element type;
  \<open>rvalue\<close> is its value category.
\<close>

definition emplace :: "traits \<Rightarrow> bool \<Rightarrow> nat \<Rightarrow> 'a \<Rightarrow> vector \<Rightarrow> 'a memory \<Rightarrow> 'a res_it" where
  "emplace tr rvalue pos val v mem =
     (if \<not> pos \<le> m_size v then (Inl AssertionFailure, v, mem)
      else
        (let pos_index_position = pos in
         returning pos_index_position
           (if m_size v + 1 < m_capacity v then
              (if pos = m_size v then
                 (case (if rvalue then traits_construct_move tr (m_vector v) (m_size v) (Some val) mem
                        else traits_construct_copy (m_vector v) (m_size v) (Some val) mem) of
                    Inl e \<Rightarrow>
                      (case traits_destroy (m_vector v) (m_size v) mem of
                         Inl e' \<Rightarrow> (Some e', v, mem)
                       | Inr mem' \<Rightarrow> (Some e, v, mem'))
                  | Inr mem' \<Rightarrow> (None, v\<lparr>m_size := m_size v + 1\<rparr>, mem'))
               else shift_and_construct_args tr rvalue pos_index_position val v mem)
            else
              (let v1 = v\<lparr>m_capacity := grow_capacity (m_capacity v) (1 + m_size v)\<rparr> in
               and_then (reallocate_strong_guarantee tr (m_capacity v1) v1 mem)
                 (shift_and_construct_args tr rvalue pos_index_position val)))))"

text \<open>
  \<^verbatim>\<open>emplace_back(Args... args)\<close> takes its argument by value: the parameter is copy
  or move constructed from the caller's argument, then forwarded as an rvalue to
  \<^verbatim>\<open>emplace(end(), ...)\<close>. The returned reference is not modelled.
\<close>

definition emplace_back :: "traits \<Rightarrow> bool \<Rightarrow> 'a \<Rightarrow> vector \<Rightarrow> 'a memory \<Rightarrow> 'a res" where
  "emplace_back tr rvalue val v mem =
     (case (if rvalue \<and> nothrow_move_constructible tr then Inr mem else charge mem) of
        Inl e \<Rightarrow> (Some e, v, mem)
      | Inr mem1 \<Rightarrow> completed (emplace tr True (m_size v) val v mem1))"

text \<open>\<^verbatim>\<open>push_back(const Type& value)\<close> and \<^verbatim>\<open>push_back(Type&& value)\<close>\<close>

definition push_back :: "traits \<Rightarrow> 'a \<Rightarrow> vector \<Rightarrow> 'a memory \<Rightarrow> 'a res" where
  "push_back tr val v mem = emplace_back tr False val v mem"

definition push_back_rv :: "traits \<Rightarrow> 'a \<Rightarrow> vector \<Rightarrow> 'a memory \<Rightarrow> 'a res" where
  "push_back_rv tr val v mem = emplace_back tr True val v mem"

text \<open>\<^verbatim>\<open>insert(const iterator pos, size_type count, const_reference value)\<close>\<close>

definition insert_count :: "traits \<Rightarrow> nat \<Rightarrow> nat \<Rightarrow> 'a \<Rightarrow> vector \<Rightarrow> 'a memory \<Rightarrow> 'a res_it" where
  "insert_count tr pos count val v mem =
     (let pos_index_position = pos in
      returning pos_index_position
        (if m_size v + count < m_capacity v then
           (if pos = m_size v then insert_end_strong_guarantee val v mem
            else shift_and_construct pos_index_position val count v mem)
         else
           (let v1 = v\<lparr>m_capacity := grow_capacity (m_capacity v) (m_size v)\<rparr> in
            and_then (reallocate_strong_guarantee tr (m_capacity v1) v1 mem)
              (shift_and_construct pos_index_position val count))))"

text \<open>\<^verbatim>\<open>erase(const iterator first, const iterator last)\<close>\<close>

definition erase_range :: "traits \<Rightarrow> nat \<Rightarrow> nat \<Rightarrow> vector \<Rightarrow> 'a memory \<Rightarrow> 'a res_it" where
  "erase_range tr first last' v mem =
     (let last_equals_end = (last' = m_size v) in
      if \<not> first \<le> m_size v then (Inl AssertionFailure, v, mem)
      else if \<not> last' \<le> m_size v then (Inl AssertionFailure, v, mem)
      else if \<not> first \<le> last' then (Inl AssertionFailure, v, mem)
      else
        (let first_position = first; last_position = last';
             difference = last_position - first_position in
         case for_loop first_position last_position
                (\<lambda>index. traits_destroy (m_vector v) index) mem of
           (Some e, _, mem1) \<Rightarrow> (Inl e, v, mem1)
         | (None, _, mem1) \<Rightarrow>
             (case (if nothrow_move_constructible tr
                    then std_move tr (m_vector v) last_position (m_size v) first_position mem1
                    else std_copy (m_vector v) last_position (m_size v) first_position mem1) of
                (Some e, mem2) \<Rightarrow> (Inl e, v, mem2)
              | (None, mem2) \<Rightarrow>
                  (Inr (if last_equals_end then last_position else first_position),
                   v\<lparr>m_size := m_size v - difference\<rparr>, mem2))))"

text \<open>
  \<^verbatim>\<open>pop_back()\<close>: on an empty vector \<^verbatim>\<open>m_vector + size() - 1\<close> points before the block.
\<close>

definition pop_back :: "vector \<Rightarrow> 'a memory \<Rightarrow> 'a res" where
  "pop_back v mem =
     (if m_size v = 0 then (Some InvalidAccess, v, mem)
      else
        (case traits_destroy (m_vector v) (m_size v - 1) mem of
           Inl e \<Rightarrow> (Some e, v, mem)
         | Inr mem' \<Rightarrow> (None, v\<lparr>m_size := m_size v - 1\<rparr>, mem')))"

subsection \<open>Comparison\<close>

text \<open>
  The elements in \<^verbatim>\<open>[p, p + n)\<close>, as the comparison algorithms read them. Reading an
  indeterminate slot for its value is an invalid access.
\<close>

definition live_range :: "addr option \<Rightarrow> nat \<Rightarrow> 'a memory \<Rightarrow> error + 'a list" where
  "live_range p n mem =
     (if n = 0 then Inr []
      else
        (case p of
           None \<Rightarrow> Inl InvalidAccess
         | Some a \<Rightarrow>
             (case blocks mem a of
                None \<Rightarrow> Inl InvalidAccess
              | Some b \<Rightarrow>
                  if n \<le> length b \<and> list_all (\<lambda>x. x \<noteq> None) (take n b)
                  then Inr (map the (take n b)) else Inl InvalidAccess)))"

text \<open>\<^verbatim>\<open>std::equal\<close> on two ranges given by raw pointers.\<close>

fun std_equal :: "'a list \<Rightarrow> 'a list \<Rightarrow> bool" where
  "std_equal [] [] = True"
| "std_equal (x # xs) (y # ys) = (x = y \<and> std_equal xs ys)"
| "std_equal _ _ = False"

definition operator_eq :: "vector \<Rightarrow> vector \<Rightarrow> 'a memory \<Rightarrow> error + bool" where
  "operator_eq first second mem =
     (if m_size first = m_size second then
        bind_err (live_range (m_vector first) (size_vec first) mem) (\<lambda>xs.
        bind_err (live_range (m_vector second) (size_vec second) mem) (\<lambda>ys.
          Inr (std_equal xs ys)))
      else Inr False)"

text \<open>
  The difference of two iterators of \<^verbatim>\<open>random_access::iterator\<close>:
  \<^verbatim>\<open>operator-(const iterator& other)\<close> returns
  \<^verbatim>\<open>std::distance(m_iterator, other.m_iterator)\<close>, that is
  \<^verbatim>\<open>other.m_iterator - m_iterator\<close>, the difference with its sign reversed. Iterators
  into one block are indices.
\<close>

definition iterator_minus :: "nat \<Rightarrow> nat \<Rightarrow> int" where
  "iterator_minus this other = int other - int this"

text \<open>The slots a pointer gives access to: none for the null pointer or a released block.\<close>

definition block_of :: "addr option \<Rightarrow> 'a memory \<Rightarrow> 'a slot list" where
  "block_of p mem =
     (case p of
        None \<Rightarrow> []
      | Some a \<Rightarrow> (case blocks mem a of None \<Rightarrow> [] | Some b \<Rightarrow> b))"

text \<open>
  \<^verbatim>\<open>operator<\<close> calls
  \<^verbatim>\<open>std::lexicographical_compare(m_vector, m_vector + size(), other.begin(), other.end())\<close>:
  the first range is given by raw pointers and the second by iterators of
  \<^verbatim>\<open>random_access::iterator\<close>, which are tagged as random access iterators. The result
  then depends on the iterator's difference, so the algorithm is modelled as libstdc++ runs
  it on random access iterators. It first cuts the first range to the length of the second:
  \<^verbatim>\<open>diff1 = last1 - first1; diff2 = last2 - first2; last1 = diff2 < diff1 ? first1 + diff2 : last1;\<close>
  and then runs
  \<^verbatim>\<open>for (; first1 != last1; ++first1, ++first2) { if (*first1 < *first2) return true; if (*first2 < *first1) return false; }\<close>
  \<^verbatim>\<open>return first1 == last1 && first2 != last2;\<close>
  In the loop \<open>b1\<close> and \<open>b2\<close> are the blocks of the two ranges, \<open>last1\<close> is the cut end of
  the first range as an offset from its start (it can be negative), \<open>last2\<close> is the end of
  the second range, and \<open>index\<close> is the common offset of \<open>first1\<close> and \<open>first2\<close>. Reading
  a slot outside its block, or an indeterminate slot for its value, is an invalid access.
\<close>

function lexicographical_compare_loop ::
  "('a::ord) slot list \<Rightarrow> 'a slot list \<Rightarrow> int \<Rightarrow> nat \<Rightarrow> nat \<Rightarrow> error + bool" where
  "lexicographical_compare_loop b1 b2 last1 last2 index =
     (if int index \<noteq> last1 then
        (if index < length b1 \<and> index < length b2 then
           (case b1 ! index of
              None \<Rightarrow> Inl InvalidAccess
            | Some x \<Rightarrow>
                (case b2 ! index of
                   None \<Rightarrow> Inl InvalidAccess
                 | Some y \<Rightarrow>
                     if x < y then Inr True
                     else if y < x then Inr False
                     else lexicographical_compare_loop b1 b2 last1 last2 (Suc index)))
         else Inl InvalidAccess)
      else Inr (index \<noteq> last2))"
  by pat_completeness auto
termination
  by (relation "measure (\<lambda>(b1, b2, last1, last2, index). length b1 - index)") auto

declare lexicographical_compare_loop.simps [simp del]

definition lexicographical_compare ::
  "('a::ord) slot list \<Rightarrow> nat \<Rightarrow> 'a slot list \<Rightarrow> nat \<Rightarrow> error + bool" where
  "lexicographical_compare b1 n1 b2 n2 =
     (let diff1 = int n1;
          diff2 = iterator_minus n2 0;
          last1 = (if diff2 < diff1 then diff2 else int n1)
      in lexicographical_compare_loop b1 b2 last1 n2 0)"

definition operator_less :: "vector \<Rightarrow> vector \<Rightarrow> ('a::ord) memory \<Rightarrow> error + bool" where
  "operator_less this other mem =
     lexicographical_compare (block_of (m_vector this) mem) (size_vec this)
       (block_of (m_vector other) mem) (size_vec other)"

definition operator_greater :: "vector \<Rightarrow> vector \<Rightarrow> ('a::ord) memory \<Rightarrow> error + bool" where
  "operator_greater this other mem =
     bind_err (operator_less this other mem) (\<lambda>b. Inr (\<not> b))"

definition operator_less_eq :: "vector \<Rightarrow> vector \<Rightarrow> ('a::ord) memory \<Rightarrow> error + bool" where
  "operator_less_eq this other mem =
     bind_err (operator_less other this mem) (\<lambda>b. Inr (\<not> b))"

definition operator_greater_eq :: "vector \<Rightarrow> vector \<Rightarrow> ('a::ord) memory \<Rightarrow> error + bool" where
  "operator_greater_eq this other mem =
     bind_err (operator_less this other mem) (\<lambda>b. Inr (\<not> b))"

section \<open>Notions used in the properties\<close>

text \<open>The parts of the result of a member function.\<close>

definition thrown :: "error option \<times> vector \<times> 'a memory \<Rightarrow> error option" where
  "thrown r = fst r"

definition vec_of :: "'e \<times> vector \<times> 'a memory \<Rightarrow> vector" where
  "vec_of r = fst (snd r)"

definition mem_of :: "'e \<times> vector \<times> 'a memory \<Rightarrow> 'a memory" where
  "mem_of r = snd (snd r)"

text \<open>The slots \<open>[0, size)\<close> of the vector's block: its element contents.\<close>

definition elements :: "vector \<Rightarrow> 'a memory \<Rightarrow> 'a slot list" where
  "elements v mem =
     (case m_vector v of
        None \<Rightarrow> []
      | Some a \<Rightarrow> (case blocks mem a of None \<Rightarrow> [] | Some b \<Rightarrow> take (m_size v) b))"

text \<open>
  What the member functions rely on: the base address is null with no size and no
  capacity, or it is the address of an allocated block of \<open>m_capacity\<close> slots that holds
  the \<open>m_size\<close> elements.
\<close>

definition well_formed :: "'a memory \<Rightarrow> vector \<Rightarrow> bool" where
  "well_formed mem v =
     (case m_vector v of
        None \<Rightarrow> m_size v = 0 \<and> m_capacity v = 0
      | Some a \<Rightarrow>
          (case blocks mem a of
             None \<Rightarrow> False
           | Some b \<Rightarrow> length b = m_capacity v \<and> m_size v \<le> m_capacity v))"

text \<open>
  The representation invariant in the words of the specification:
  \<open>0 \<le> size \<le> capacity\<close>; the base address is empty iff the capacity is 0; the live
  elements are contiguous starting at index 0.
\<close>

definition representation_invariant :: "'a memory \<Rightarrow> vector \<Rightarrow> bool" where
  "representation_invariant mem v =
     (m_size v \<le> m_capacity v \<and>
      ((m_vector v = None) = (m_capacity v = 0)) \<and>
      (case m_vector v of
         None \<Rightarrow> True
       | Some a \<Rightarrow>
           (case blocks mem a of
              None \<Rightarrow> False
            | Some b \<Rightarrow>
                length b = m_capacity v \<and> list_all (\<lambda>x. x \<noteq> None) (take (m_size v) b))))"

text \<open>Successive \<^verbatim>\<open>push_back\<close> calls; the first exception ends the sequence.\<close>

fun push_back_all :: "traits \<Rightarrow> 'a list \<Rightarrow> vector \<Rightarrow> 'a memory \<Rightarrow> 'a res" where
  "push_back_all tr [] v mem = (None, v, mem)"
| "push_back_all tr (x # xs) v mem = and_then (push_back tr x v mem) (push_back_all tr xs)"

text \<open>
  A memory with no block where no element operation throws; the traits of an element type
  with a non-throwing move constructor under \<^verbatim>\<open>std::allocator\<close>; the traits of an
  element type that is copied because its move constructor may throw.
\<close>

definition empty_memory :: "'a memory" where
  "empty_memory = \<lparr>blocks = (\<lambda>_. None), next_addr = 0, budget = None, destroyed = []\<rparr>"

definition std_traits :: traits where
  "std_traits =
     \<lparr>nothrow_move_constructible = True, copy_constructible = True,
      propagate_on_container_copy_assignment = False,
      propagate_on_container_move_assignment = True,
      propagate_on_container_swap = False, is_always_equal = True\<rparr>"

definition copying_traits :: traits where
  "copying_traits = std_traits\<lparr>nothrow_move_constructible := False\<rparr>"

section \<open>Concrete vectors\<close>

text \<open>The vector \<open>{1}\<close> of a copied element type, built by one \<^verbatim>\<open>push_back\<close>.\<close>

definition one_copied :: "nat res" where
  "one_copied = push_back copying_traits 1 (vector_default 0) empty_memory"

text \<open>
  \<^verbatim>\<open>push_back(2)\<close> on it when the second element operation of the call throws: the copy
  into the by-value parameter succeeds and the copy of the element \<open>1\<close> into the new
  block throws.
\<close>

definition failing_append :: "nat res" where
  "failing_append =
     push_back copying_traits 2 (vec_of one_copied) ((mem_of one_copied)\<lparr>budget := Some 1\<rparr>)"

text \<open>The vector \<open>{1, 2, 3}\<close>, and \<^verbatim>\<open>b = std::move(a)\<close> from it into an empty vector \<open>b\<close>.\<close>

definition three_elements :: "nat res" where
  "three_elements = vector_init_list [1, 2, 3] 0 empty_memory"

definition moved_into_empty :: "error option \<times> vector \<times> vector \<times> nat memory" where
  "moved_into_empty =
     move_assign std_traits False (vec_of three_elements) (vector_default 0)
       (mem_of three_elements)"

text \<open>An empty vector after \<^verbatim>\<open>reserve(4)\<close>.\<close>

definition reserved_four :: "nat res" where
  "reserved_four = reserve std_traits 4 (vector_default 0) empty_memory"

text \<open>
  The vector \<open>{10, 20}\<close>; the same after \<^verbatim>\<open>reserve(8)\<close>; then
  \<^verbatim>\<open>insert(end(), 3, 99)\<close> on that.
\<close>

definition ten_twenty :: "nat res" where
  "ten_twenty = vector_init_list [10, 20] 0 empty_memory"

definition ten_twenty_reserved :: "nat res" where
  "ten_twenty_reserved = and_then ten_twenty (reserve std_traits 8)"

definition three_inserted_at_end :: "nat res_it" where
  "three_inserted_at_end =
     insert_count std_traits 2 3 99 (vec_of ten_twenty_reserved) (mem_of ten_twenty_reserved)"

text \<open>Copy assignment to \<open>{10, 20}\<close> from a default-constructed vector.\<close>

definition assigned_from_empty :: "nat res" where
  "assigned_from_empty =
     copy_assign std_traits False (vector_default 0) (vec_of ten_twenty) (mem_of ten_twenty)"

text \<open>The vector \<open>{10, 20, 30, 40}\<close>.\<close>

definition ten_to_forty :: "nat res" where
  "ten_to_forty = vector_init_list [10, 20, 30, 40] 0 empty_memory"

text \<open>
  The state of the block at address \<open>a\<close> while \<^verbatim>\<open>erase\<close> shifts the tail down: \<open>b\<close> is
  the block before the call, \<open>F\<close> and \<open>L\<close> are the erased range, \<open>i\<close> elements have been
  shifted, and \<open>D\<close> is the log of destroyed slots.
\<close>

definition shifted ::
  "addr \<Rightarrow> 'a slot list \<Rightarrow> nat \<Rightarrow> nat \<Rightarrow> 'a slot list \<Rightarrow> nat \<Rightarrow> 'a memory \<Rightarrow> bool" where
  "shifted a b F L D i m =
     (\<exists>bi. blocks m a = Some bi \<and> length bi = length b \<and>
           take (F + i) bi = take F b @ take i (drop L b) \<and>
           drop (L + i) bi = drop (L + i) b \<and> destroyed m = D)"

text \<open>
  The layout of a memory: the number of slots of each allocated block. A memory is calm
  with layout \<open>L\<close> and next address \<open>nx\<close> when that is its layout and next address and
  no element operation throws in it.
\<close>

definition layout :: "'a memory \<Rightarrow> addr \<Rightarrow> nat option" where
  "layout m a = map_option length (blocks m a)"

definition calm :: "(addr \<Rightarrow> nat option) \<Rightarrow> addr \<Rightarrow> 'a memory \<Rightarrow> bool" where
  "calm L nx m = (layout m = L \<and> budget m = None \<and> next_addr m = nx)"

text \<open>The Memory Provider hands out fresh addresses: no block lies at or above \<open>next_addr\<close>.\<close>

definition consistent :: "'a memory \<Rightarrow> bool" where
  "consistent m = (\<forall>a. next_addr m \<le> a \<longrightarrow> blocks m a = None)"

text \<open>\<open>c\<close> is the power of two with \<open>k < c \<le> 2 k\<close>: the least power of two above \<open>k\<close>.\<close>

definition doubled :: "nat \<Rightarrow> nat \<Rightarrow> bool" where
  "doubled k c = (\<exists>n. c = 2 ^ n \<and> k < c \<and> c \<le> 2 * k)"

section \<open>Loops and element operations\<close>

lemma for_loop_stop: "\<not> index < bound \<Longrightarrow> for_loop index bound body s = (None, index, s)"
  by (simp add: for_loop.simps)

lemma for_loop_step:
  "index < bound \<Longrightarrow>
   for_loop index bound body s =
     (case body index s of
        Inl e \<Rightarrow> (Some e, index, s)
      | Inr s' \<Rightarrow> for_loop (Suc index) bound body s')"
  by (subst for_loop.simps) simp

lemma traits_destroy_ok:
  assumes "blocks m a = Some b" and "i < length b"
  shows "traits_destroy (Some a) i m =
           Inr (m\<lparr>blocks := (blocks m)(a := Some (b[i := None])),
                  destroyed := destroyed m @ [b ! i]\<rparr>)"
  using assms by (simp add: traits_destroy_def read_slot_def write_slot_def bind_err_def)

text \<open>Destroying the slots \<open>[lo, hi)\<close> of a block, in order.\<close>

lemma destroy_loop:
  assumes "blocks m a = Some b" and "hi \<le> length b" and "lo \<le> hi"
  shows "for_loop lo hi (\<lambda>index. traits_destroy (Some a) index) m =
           (None, hi,
            m\<lparr>blocks := (blocks m)(a := Some (take lo b @ replicate (hi - lo) None @ drop hi b)),
              destroyed := destroyed m @ take (hi - lo) (drop lo b)\<rparr>)"
  using assms
proof (induction "hi - lo" arbitrary: lo m b)
  case 0
  then have "lo = hi" by simp
  with 0 show ?case
    by (simp add: for_loop_stop fun_upd_idem)
next
  case (Suc n)
  then have lt: "lo < hi" and n: "n = hi - Suc lo" by simp_all
  let ?m1 = "m\<lparr>blocks := (blocks m)(a := Some (b[lo := None])),
                destroyed := destroyed m @ [b ! lo]\<rparr>"
  have step: "traits_destroy (Some a) lo m = Inr ?m1"
    using Suc.prems lt by (simp add: traits_destroy_ok)
  have ih: "for_loop (Suc lo) hi (\<lambda>index. traits_destroy (Some a) index) ?m1 =
      (None, hi,
       ?m1\<lparr>blocks := (blocks ?m1)(a := Some (take (Suc lo) (b[lo := None]) @
                  replicate (hi - Suc lo) None @ drop hi (b[lo := None]))),
           destroyed := destroyed ?m1 @ take (hi - Suc lo) (drop (Suc lo) (b[lo := None]))\<rparr>)"
    using Suc.prems lt by (intro Suc.hyps(1) n) simp_all
  have l1: "take (Suc lo) (b[lo := None]) = take lo b @ [None]"
    using Suc.prems lt by (simp add: take_Suc_conv_app_nth)
  have l2: "replicate (hi - lo) None = (None :: 'a slot) # replicate (hi - Suc lo) None"
    using lt by (metis Suc_diff_Suc replicate_Suc)
  have l3: "take (hi - lo) (drop lo b) = b ! lo # take (hi - Suc lo) (drop (Suc lo) b)"
    using Suc.prems lt by (metis Cons_nth_drop_Suc Suc_diff_Suc less_le_trans take_Suc_Cons)
  show ?case
    using lt by (simp add: for_loop_step step ih l1 l2 l3)
qed

lemma destruct_block:
  assumes "m_vector v = Some a" and "blocks mem a = Some b" and "sz \<le> length b"
  shows "destruct sz v mem =
           (None, v\<lparr>m_size := 0\<rparr>,
            mem\<lparr>blocks := (blocks mem)(a := Some (replicate sz None @ drop sz b)),
                destroyed := destroyed mem @ take sz b\<rparr>)"
  using assms by (simp add: destruct_def destroy_loop)

lemma destruct_null:
  "destruct 0 v mem = (None, v\<lparr>m_size := 0\<rparr>, mem)"
  by (simp add: destruct_def for_loop_stop)

lemma reserve_in_range:
  "cap \<le> max_size \<Longrightarrow>
   reserve tr cap v mem =
     (if cap > m_capacity v then reallocate_strong_guarantee tr cap v mem else (None, v, mem))"
  by (simp add: reserve_def)

section \<open>Clear (C7)\<close>

text \<open>
  C7, as the code has it: on a well-formed vector \<^verbatim>\<open>clear()\<close> completes, destroys all
  live elements in order and leaves size 0; the capacity and the base address are
  unchanged, the block stays allocated (with its first \<open>size\<close> slots destroyed) and no
  block of the memory is released.
\<close>

theorem clear_keeps_block:
  assumes "well_formed mem v"
  shows "thrown (clear v mem) = None \<and>
         size_vec (vec_of (clear v mem)) = 0 \<and>
         capacity (vec_of (clear v mem)) = capacity v \<and>
         m_vector (vec_of (clear v mem)) = m_vector v \<and>
         destroyed (mem_of (clear v mem)) = destroyed mem @ elements v mem \<and>
         (\<forall>a b. m_vector v = Some a \<and> blocks mem a = Some b \<longrightarrow>
            blocks (mem_of (clear v mem)) a = Some (replicate (m_size v) None @ drop (m_size v) b)) \<and>
         (\<forall>a. (blocks (mem_of (clear v mem)) a = None) = (blocks mem a = None))"
proof (cases "m_vector v")
  case None
  with assms have "m_size v = 0" by (simp add: well_formed_def)
  with None show ?thesis
    by (simp add: clear_def destruct_null thrown_def vec_of_def mem_of_def size_vec_def
        capacity_def elements_def)
next
  case (Some a)
  with assms obtain b where b: "blocks mem a = Some b" "m_size v \<le> length b"
    by (auto simp: well_formed_def split: option.splits)
  show ?thesis
    using Some b
    by (simp add: clear_def destruct_block thrown_def vec_of_def mem_of_def size_vec_def
        capacity_def elements_def)
qed

text \<open>A vector built from the list \<open>{10, 20}\<close>, cleared: capacity 2, block still there.\<close>

theorem clear_keeps_block_witness:
  "well_formed (mem_of (vector_init_list [10, 20 :: nat] 0 empty_memory))
     (vec_of (vector_init_list [10, 20 :: nat] 0 empty_memory)) \<and>
   capacity (vec_of (clear (vec_of (vector_init_list [10, 20 :: nat] 0 empty_memory))
                           (mem_of (vector_init_list [10, 20 :: nat] 0 empty_memory)))) = 2 \<and>
   destroyed (mem_of (clear (vec_of (vector_init_list [10, 20 :: nat] 0 empty_memory))
                            (mem_of (vector_init_list [10, 20 :: nat] 0 empty_memory))))
     = [Some 10, Some 20]"
proof -
  have wf: "well_formed (mem_of (vector_init_list [10, 20 :: nat] 0 empty_memory))
     (vec_of (vector_init_list [10, 20 :: nat] 0 empty_memory))"
    by code_simp
  have c: "capacity (vec_of (vector_init_list [10, 20 :: nat] 0 empty_memory)) = 2"
    by code_simp
  have d: "destroyed (mem_of (vector_init_list [10, 20 :: nat] 0 empty_memory)) = []"
    by code_simp
  have e: "elements (vec_of (vector_init_list [10, 20 :: nat] 0 empty_memory))
      (mem_of (vector_init_list [10, 20 :: nat] 0 empty_memory)) = [Some 10, Some 20]"
    by code_simp
  show ?thesis
    using clear_keeps_block [OF wf] wf c d e by simp
qed

text \<open>
  The claim as stated fails: after \<^verbatim>\<open>clear()\<close> on \<open>{10, 20}\<close> the capacity is 2, the
  base address is not null and the block is still allocated.
\<close>

theorem clear_releases_block_counterexample:
  "thrown (and_then (vector_init_list [10, 20 :: nat] 0 empty_memory) clear) = None \<and>
   size_vec (vec_of (and_then (vector_init_list [10, 20 :: nat] 0 empty_memory) clear)) = 0 \<and>
   capacity (vec_of (and_then (vector_init_list [10, 20 :: nat] 0 empty_memory) clear)) = 2 \<and>
   \<not> is_null (vec_of (and_then (vector_init_list [10, 20 :: nat] 0 empty_memory) clear)) \<and>
   blocks (mem_of (and_then (vector_init_list [10, 20 :: nat] 0 empty_memory) clear)) 0
     = Some [None, None]"
  by code_simp

section \<open>The raw data pointer (C10)\<close>

lemma clear_vec:
  assumes "well_formed mem v"
  shows "thrown (clear v mem) = None \<and> vec_of (clear v mem) = v\<lparr>m_size := 0\<rparr>"
proof (cases "m_vector v")
  case None
  with assms have "m_size v = 0" by (simp add: well_formed_def)
  then show ?thesis
    by (simp add: clear_def destruct_null thrown_def vec_of_def)
next
  case (Some a)
  with assms obtain b where "blocks mem a = Some b" "m_size v \<le> length b"
    by (auto simp: well_formed_def split: option.splits)
  with Some show ?thesis
    by (simp add: clear_def destruct_block thrown_def vec_of_def)
qed

lemma reserve_default:
  assumes "0 < n" and "n \<le> max_size"
  shows "reserve tr n (vector_default al) mem =
           (None,
            \<lparr>m_vector = Some (next_addr mem), m_capacity = n, m_size = 0, m_allocator = al\<rparr>,
            mem\<lparr>blocks := (blocks mem)(next_addr mem := Some (replicate n None)),
                next_addr := Suc (next_addr mem)\<rparr>)"
  using assms
  by (simp add: reserve_def vector_default_def reallocate_strong_guarantee_def
      traits_allocate_def for_loop_stop deallocate_destruct_keep_size_and_capacity_def
      traits_deallocate_def and_then_def)

text \<open>
  C10: \<^verbatim>\<open>data()\<close> is the null pointer whenever the size is 0, and otherwise the base
  address \<^verbatim>\<open>m_vector\<close>, which is the address of the element of index 0
  (\<^verbatim>\<open>begin()\<close>). In particular it is null although a block of capacity \<open>n > 0\<close> is
  allocated after \<^verbatim>\<open>reserve(n)\<close> on an empty vector, and after \<^verbatim>\<open>clear()\<close>,
  which keeps the capacity and the block.
\<close>

theorem data_null_when_empty:
  "(size_vec v = 0 \<longrightarrow> data v = None) \<and>
   (size_vec v \<noteq> 0 \<longrightarrow> data v = begin_vec v) \<and>
   (0 < n \<and> n \<le> max_size \<longrightarrow>
      thrown (reserve tr n (vector_default al) mem) = None \<and>
      size_vec (vec_of (reserve tr n (vector_default al) mem)) = 0 \<and>
      capacity (vec_of (reserve tr n (vector_default al) mem)) = n \<and>
      \<not> is_null (vec_of (reserve tr n (vector_default al) mem)) \<and>
      data (vec_of (reserve tr n (vector_default al) mem)) = None) \<and>
   (well_formed mem v \<longrightarrow>
      thrown (clear v mem) = None \<and>
      capacity (vec_of (clear v mem)) = capacity v \<and>
      is_null (vec_of (clear v mem)) = is_null v \<and>
      data (vec_of (clear v mem)) = None)"
proof (intro conjI impI)
  assume "0 < n \<and> n \<le> max_size"
  then have r: "reserve tr n (vector_default al) mem =
           (None,
            \<lparr>m_vector = Some (next_addr mem), m_capacity = n, m_size = 0, m_allocator = al\<rparr>,
            mem\<lparr>blocks := (blocks mem)(next_addr mem := Some (replicate n None)),
                next_addr := Suc (next_addr mem)\<rparr>)"
    by (simp add: reserve_default)
  show "thrown (reserve tr n (vector_default al) mem) = None"
    and "size_vec (vec_of (reserve tr n (vector_default al) mem)) = 0"
    and "capacity (vec_of (reserve tr n (vector_default al) mem)) = n"
    and "\<not> is_null (vec_of (reserve tr n (vector_default al) mem))"
    and "data (vec_of (reserve tr n (vector_default al) mem)) = None"
    by (simp_all add: r thrown_def vec_of_def size_vec_def capacity_def is_null_def data_def)
next
  assume wf: "well_formed mem v"
  show "thrown (clear v mem) = None"
    and "capacity (vec_of (clear v mem)) = capacity v"
    and "is_null (vec_of (clear v mem)) = is_null v"
    and "data (vec_of (clear v mem)) = None"
    by (simp_all add: clear_vec [OF wf] capacity_def is_null_def data_def size_vec_def)
qed (simp_all add: data_def begin_vec_def)

theorem data_null_when_empty_witness:
  "size_vec (vector_default 0) = 0 \<and> data (vector_default 0) = None \<and>
   (0::nat) < 4 \<and> 4 \<le> max_size \<and>
   capacity (vec_of (reserve std_traits 4 (vector_default 0) (empty_memory :: nat memory))) = 4 \<and>
   data (vec_of (reserve std_traits 4 (vector_default 0) (empty_memory :: nat memory))) = None \<and>
   well_formed (empty_memory :: nat memory) (vector_default 0) \<and>
   data (vec_of (clear (vector_default 0) (empty_memory :: nat memory))) = None \<and>
   size_vec (vec_of ten_twenty) \<noteq> 0 \<and>
   data (vec_of ten_twenty) = begin_vec (vec_of ten_twenty) \<and>
   data (vec_of ten_twenty) = Some 0"
proof -
  have a: "size_vec (vector_default 0) = 0"
    by (simp add: size_vec_def vector_default_def)
  have b: "(0::nat) < 4 \<and> 4 \<le> max_size"
    by (simp add: max_size_def)
  have c: "well_formed (empty_memory :: nat memory) (vector_default 0)"
    by (simp add: well_formed_def vector_default_def)
  have d: "size_vec (vec_of ten_twenty) \<noteq> 0" "begin_vec (vec_of ten_twenty) = Some 0"
    by code_simp+
  show ?thesis
    using data_null_when_empty [of "vector_default 0" 4 std_traits 0 "empty_memory :: nat memory"]
      data_null_when_empty [of "vec_of ten_twenty" 4 std_traits 0 "empty_memory :: nat memory"]
      a b c d
    by simp
qed

section \<open>The code at the inputs where it leaves the specification\<close>

lemma reserve_four:
  "reserve tr 4 v mem =
     (if 4 > m_capacity v then reallocate_strong_guarantee tr 4 v mem else (None, v, mem))"
  by (rule reserve_in_range) (simp add: max_size_def)

lemma reserve_eight:
  "reserve tr 8 v mem =
     (if 8 > m_capacity v then reallocate_strong_guarantee tr 8 v mem else (None, v, mem))"
  by (rule reserve_in_range) (simp add: max_size_def)

text \<open>
  C2: the vector \<open>{1}\<close> has size 1 and capacity 2. \<^verbatim>\<open>push_back(2)\<close> takes the growth
  path of \<^verbatim>\<open>emplace\<close>, which doubles \<^verbatim>\<open>m_capacity\<close> before it reallocates. When the
  copy made during the reallocation throws, the exception propagates and size and
  contents are as before the call, but the capacity reads 4 while the block still has 2
  slots.
\<close>

theorem append_failure_changes_capacity:
  "thrown one_copied = None \<and>
   size_vec (vec_of one_copied) = 1 \<and>
   capacity (vec_of one_copied) = 2 \<and>
   elements (vec_of one_copied) (mem_of one_copied) = [Some 1] \<and>
   thrown failing_append = Some ElementConstructionFailure \<and>
   size_vec (vec_of failing_append) = 1 \<and>
   elements (vec_of failing_append) (mem_of failing_append) = [Some 1] \<and>
   capacity (vec_of failing_append) = 4 \<and>
   m_vector (vec_of failing_append) = Some 0 \<and>
   blocks (mem_of failing_append) 0 = Some [Some 1, None]"
  by code_simp

text \<open>
  C3: after \<^verbatim>\<open>b = std::move(a)\<close> with \<open>a = {1, 2, 3}\<close> the source is empty with
  capacity 0 and \<open>b\<close> owns the block of \<open>a\<close>, but \<open>b\<close> reports size 0 and capacity 0: its
  size and capacity are read from \<open>a\<close> after \<open>a\<close> has been reset.
\<close>

theorem move_assign_loses_elements:
  "size_vec (vec_of three_elements) = 3 \<and>
   elements (vec_of three_elements) (mem_of three_elements) = [Some 1, Some 2, Some 3] \<and>
   fst moved_into_empty = None \<and>
   size_vec (fst (snd moved_into_empty)) = 0 \<and>
   capacity (fst (snd moved_into_empty)) = 0 \<and>
   elements (fst (snd moved_into_empty)) (snd (snd (snd moved_into_empty))) = [] \<and>
   m_vector (fst (snd moved_into_empty)) = m_vector (vec_of three_elements) \<and>
   size_vec (fst (snd (snd moved_into_empty))) = 0 \<and>
   capacity (fst (snd (snd moved_into_empty))) = 0 \<and>
   is_null (fst (snd (snd moved_into_empty)))"
  by code_simp

text \<open>
  C4: after \<^verbatim>\<open>reserve(4)\<close> on an empty vector the capacity is 4 and three appends keep
  it, but the fourth append, which brings the size to 4, reallocates to capacity 8:
  \<^verbatim>\<open>emplace\<close> constructs in place only when \<^verbatim>\<open>size() + 1 < capacity()\<close>.
\<close>

theorem reserve_then_appends_reallocates:
  "thrown reserved_four = None \<and>
   capacity (vec_of reserved_four) = 4 \<and>
   capacity (vec_of (and_then reserved_four (push_back_all std_traits [1, 2, 3]))) = 4 \<and>
   thrown (and_then reserved_four (push_back_all std_traits [1, 2, 3, 4])) = None \<and>
   size_vec (vec_of (and_then reserved_four (push_back_all std_traits [1, 2, 3, 4]))) = 4 \<and>
   capacity (vec_of (and_then reserved_four (push_back_all std_traits [1, 2, 3, 4]))) = 8 \<and>
   m_vector (vec_of (and_then reserved_four (push_back_all std_traits [1, 2, 3, 4])))
     \<noteq> m_vector (vec_of reserved_four)"
  unfolding reserved_four_def reserve_four by code_simp

text \<open>
  C5: \<open>{10, 20}\<close> with capacity 8; \<^verbatim>\<open>insert(end(), 3, 99)\<close> completes and inserts one
  copy of 99, not three: with spare capacity and \<^verbatim>\<open>pos == end()\<close> the code calls
  \<^verbatim>\<open>insert_end_strong_guarantee(value)\<close>, which ignores \<open>count\<close>.
\<close>

theorem insert_count_at_end_inserts_one:
  "thrown ten_twenty_reserved = None \<and>
   size_vec (vec_of ten_twenty_reserved) = 2 \<and>
   capacity (vec_of ten_twenty_reserved) = 8 \<and>
   elements (vec_of ten_twenty_reserved) (mem_of ten_twenty_reserved) = [Some 10, Some 20] \<and>
   fst three_inserted_at_end = Inr 2 \<and>
   size_vec (vec_of three_inserted_at_end) = 3 \<and>
   elements (vec_of three_inserted_at_end) (mem_of three_inserted_at_end)
     = [Some 10, Some 20, Some 99]"
  unfolding three_inserted_at_end_def ten_twenty_reserved_def reserve_eight by code_simp

text \<open>
  C6: \<open>{10, 20}\<close> and a default-constructed vector both satisfy the representation
  invariant. Copy assignment from the latter sets the base address to null and the size
  to 0 but leaves the capacity at 2: the base address is null although the capacity is
  not 0.
\<close>

theorem copy_assign_from_null_breaks_invariant:
  "representation_invariant (mem_of ten_twenty) (vec_of ten_twenty) \<and>
   representation_invariant (mem_of ten_twenty) (vector_default 0) \<and>
   thrown assigned_from_empty = None \<and>
   is_null (vec_of assigned_from_empty) \<and>
   size_vec (vec_of assigned_from_empty) = 0 \<and>
   capacity (vec_of assigned_from_empty) = 2 \<and>
   \<not> representation_invariant (mem_of assigned_from_empty) (vec_of assigned_from_empty)"
  by code_simp

text \<open>
  C9: two default-constructed vectors \<open>a\<close> and \<open>b\<close> are empty and equal, and \<^verbatim>\<open>b < a\<close>
  is false (no element is read), yet \<^verbatim>\<open>a > b\<close> is true: \<^verbatim>\<open>operator>\<close> returns
  \<^verbatim>\<open>!(*this < other)\<close>, the body of \<^verbatim>\<open>operator>=\<close>.
\<close>

theorem operator_greater_on_equal_vectors:
  "size_vec (vector_default 0) = 0 \<and>
   operator_eq (vector_default 0) (vector_default 0) (empty_memory :: nat memory) = Inr True \<and>
   operator_less (vector_default 0) (vector_default 0) (empty_memory :: nat memory) = Inr False \<and>
   operator_greater (vector_default 0) (vector_default 0) (empty_memory :: nat memory) = Inr True \<and>
   operator_less_eq (vector_default 0) (vector_default 0) (empty_memory :: nat memory) = Inr True \<and>
   operator_greater_eq (vector_default 0) (vector_default 0) (empty_memory :: nat memory) = Inr True"
  by code_simp

section \<open>Range erase (C8)\<close>

lemma for_loop_rule:
  assumes "I lo s" and "lo \<le> hi"
    and "\<And>i s s'. lo \<le> i \<Longrightarrow> i < hi \<Longrightarrow> I i s \<Longrightarrow> body i s = Inr s' \<Longrightarrow> I (Suc i) s'"
  shows "(case for_loop lo hi body s of
            (None, k, s') \<Rightarrow> k = hi \<and> I hi s'
          | (Some e, k, s') \<Rightarrow> lo \<le> k \<and> k < hi \<and> I k s')"
  using assms
proof (induction "hi - lo" arbitrary: lo s)
  case 0
  then show ?case by (simp add: for_loop_stop)
next
  case (Suc n)
  then have lt: "lo < hi" by simp
  show ?case
  proof (cases "body lo s")
    case (Inl e)
    with lt Suc.prems(1) show ?thesis by (simp add: for_loop_step)
  next
    case (Inr s1)
    have I1: "I (Suc lo) s1"
      using Suc.prems(3) [of lo s s1] lt Suc.prems(1) Inr by simp
    have n: "n = hi - Suc lo" using Suc.hyps(2) by simp
    have step: "\<And>i s s'. Suc lo \<le> i \<Longrightarrow> i < hi \<Longrightarrow> I i s \<Longrightarrow> body i s = Inr s' \<Longrightarrow> I (Suc i) s'"
      using Suc.prems(3) by simp
    have "(case for_loop (Suc lo) hi body s1 of
            (None, k, s') \<Rightarrow> k = hi \<and> I hi s'
          | (Some e, k, s') \<Rightarrow> Suc lo \<le> k \<and> k < hi \<and> I k s')"
      using Suc.hyps(1) [OF n I1 _ step] lt by simp
    then show ?thesis
      using lt Inr by (auto simp: for_loop_step split: option.splits prod.splits)
  qed
qed

lemma for_loop_total:
  assumes "I lo s" and "lo \<le> hi"
    and "\<And>i s. lo \<le> i \<Longrightarrow> i < hi \<Longrightarrow> I i s \<Longrightarrow> \<exists>s'. body i s = Inr s' \<and> I (Suc i) s'"
  shows "\<exists>s'. for_loop lo hi body s = (None, hi, s') \<and> I hi s'"
  using assms
proof (induction "hi - lo" arbitrary: lo s)
  case 0
  then show ?case by (simp add: for_loop_stop)
next
  case (Suc n)
  then have lt: "lo < hi" by simp
  obtain s1 where s1: "body lo s = Inr s1" "I (Suc lo) s1"
    using Suc.prems(3) [of lo s] lt Suc.prems(1) by auto
  have n: "n = hi - Suc lo" using Suc.hyps(2) by simp
  have step: "\<And>i s. Suc lo \<le> i \<Longrightarrow> i < hi \<Longrightarrow> I i s \<Longrightarrow> \<exists>s'. body i s = Inr s' \<and> I (Suc i) s'"
    using Suc.prems(3) by simp
  have "\<exists>s'. for_loop (Suc lo) hi body s1 = (None, hi, s') \<and> I hi s'"
    using Suc.hyps(1) [OF n s1(2) _ step] lt by simp
  then show ?case
    using lt s1 by (simp add: for_loop_step)
qed

lemma charge_Inr:
  "charge m = Inr m1 \<Longrightarrow>
   blocks m1 = blocks m \<and> destroyed m1 = destroyed m \<and> next_addr m1 = next_addr m"
  by (auto simp: charge_def split: option.splits nat.splits)

lemma charge_unlimited: "budget m = None \<Longrightarrow> charge m = Inr m"
  by (simp add: charge_def)

lemma shifted_read:
  assumes "shifted a b F L D i m" and "L + i < length b"
  shows "read_slot (Some a) (L + i) m = Inr (b ! (L + i))"
proof -
  from assms(1) obtain bi where bi: "blocks m a = Some bi" "length bi = length b"
    "drop (L + i) bi = drop (L + i) b"
    by (auto simp: shifted_def)
  have "bi ! (L + i) = drop (L + i) bi ! 0"
    using assms(2) bi(2) by simp
  also have "\<dots> = b ! (L + i)"
    using assms(2) by (simp add: bi(3))
  finally show ?thesis
    using bi assms(2) by (simp add: read_slot_def)
qed

lemma shifted_write:
  assumes sh: "shifted a b F L D i m" and "F \<le> L" and lt: "L + i < length b"
    and same: "blocks m0 = blocks m" "destroyed m0 = destroyed m"
  shows "\<exists>m'. write_slot (Some a) (F + i) (b ! (L + i)) m0 = Inr m' \<and>
              shifted a b F L D (Suc i) m' \<and> budget m' = budget m0"
proof -
  from sh obtain bi where bi: "blocks m a = Some bi" "length bi = length b"
    "take (F + i) bi = take F b @ take i (drop L b)"
    "drop (L + i) bi = drop (L + i) b" "destroyed m = D"
    by (auto simp: shifted_def)
  let ?bi' = "bi[F + i := b ! (L + i)]"
  let ?m' = "m0\<lparr>blocks := (blocks m0)(a := Some ?bi')\<rparr>"
  have w: "write_slot (Some a) (F + i) (b ! (L + i)) m0 = Inr ?m'"
    using bi same assms(2) lt by (simp add: write_slot_def)
  have t: "take (F + Suc i) ?bi' = take F b @ take (Suc i) (drop L b)"
  proof -
    have "take (F + Suc i) ?bi' = take (F + i) bi @ [b ! (L + i)]"
      using bi(2) assms(2) lt by (simp add: take_Suc_conv_app_nth)
    also have "\<dots> = take F b @ take i (drop L b) @ [drop L b ! i]"
      using lt by (simp add: bi(3))
    also have "\<dots> = take F b @ take (Suc i) (drop L b)"
      using lt by (simp add: take_Suc_conv_app_nth)
    finally show ?thesis .
  qed
  have d: "drop (L + Suc i) ?bi' = drop (L + Suc i) b"
  proof -
    have "drop (L + Suc i) ?bi' = drop (L + Suc i) bi"
      using assms(2) by simp
    also have "\<dots> = drop 1 (drop (L + i) bi)"
      by simp
    also have "\<dots> = drop (L + Suc i) b"
      by (simp add: bi(4))
    finally show ?thesis .
  qed
  have "shifted a b F L D (Suc i) ?m'"
    using bi same t d by (simp add: shifted_def)
  with w show ?thesis by auto
qed

lemma shifted_step_move:
  assumes "shifted a b F L D i m" and "F \<le> L" and "L + i < length b"
    and "bind_err (read_slot (Some a) (L + i) m) (\<lambda>x. assign_move tr (Some a) (F + i) x m) = Inr m'"
  shows "shifted a b F L D (Suc i) m'"
proof (cases "nothrow_move_constructible tr")
  case True
  with assms(4) have "write_slot (Some a) (F + i) (b ! (L + i)) m = Inr m'"
    by (simp add: shifted_read [OF assms(1,3)] bind_err_def assign_move_def)
  with shifted_write [OF assms(1-3), of m] show ?thesis by auto
next
  case False
  with assms(4) obtain m0 where m0: "charge m = Inr m0"
    "write_slot (Some a) (F + i) (b ! (L + i)) m0 = Inr m'"
    by (auto simp: shifted_read [OF assms(1,3)] bind_err_def assign_move_def split: sum.splits)
  with shifted_write [OF assms(1-3), of m0] charge_Inr [OF m0(1)] show ?thesis by auto
qed

lemma shifted_step_copy:
  assumes "shifted a b F L D i m" and "F \<le> L" and "L + i < length b"
    and "bind_err (read_slot (Some a) (L + i) m) (\<lambda>x. assign_copy (Some a) (F + i) x m) = Inr m'"
  shows "shifted a b F L D (Suc i) m'"
proof -
  from assms(4) obtain m0 where m0: "charge m = Inr m0"
    "write_slot (Some a) (F + i) (b ! (L + i)) m0 = Inr m'"
    by (auto simp: shifted_read [OF assms(1,3)] bind_err_def assign_copy_def split: sum.splits)
  with shifted_write [OF assms(1-3), of m0] charge_Inr [OF m0(1)] show ?thesis by auto
qed

lemma shifted_start:
  assumes "blocks m a = Some b" and "F \<le> L" and "L \<le> length b"
  shows "shifted a b F L (destroyed m @ take (L - F) (drop F b)) 0
           (m\<lparr>blocks := (blocks m)(a := Some (take F b @ replicate (L - F) None @ drop L b)),
              destroyed := destroyed m @ take (L - F) (drop F b)\<rparr>)"
  using assms by (auto simp: shifted_def min_def)

lemma erase_shift_result:
  assumes "shifted a b F L D 0 m1" and "F \<le> L" and "L \<le> S" and "S \<le> length b"
    and "(if nothrow_move_constructible tr then std_move tr (Some a) L S F m1
          else std_copy (Some a) L S F m1) = (None, m2)"
  shows "shifted a b F L D (S - L) m2"
proof (cases "nothrow_move_constructible tr")
  case True
  have "(case for_loop 0 (S - L)
           (\<lambda>i m. bind_err (read_slot (Some a) (L + i) m)
                     (\<lambda>x. assign_move tr (Some a) (F + i) x m)) m1 of
            (None, k, s') \<Rightarrow> k = S - L \<and> shifted a b F L D (S - L) s'
          | (Some e, k, s') \<Rightarrow> 0 \<le> k \<and> k < S - L \<and> shifted a b F L D k s')"
    using assms(1-4)
    by (intro for_loop_rule [where I = "shifted a b F L D"]) (auto intro: shifted_step_move)
  with True assms(5) show ?thesis
    by (auto simp: std_move_def split: prod.splits option.splits)
next
  case False
  have "(case for_loop 0 (S - L)
           (\<lambda>i m. bind_err (read_slot (Some a) (L + i) m)
                     (\<lambda>x. assign_copy (Some a) (F + i) x m)) m1 of
            (None, k, s') \<Rightarrow> k = S - L \<and> shifted a b F L D (S - L) s'
          | (Some e, k, s') \<Rightarrow> 0 \<le> k \<and> k < S - L \<and> shifted a b F L D k s')"
    using assms(1-4)
    by (intro for_loop_rule [where I = "shifted a b F L D"]) (auto intro: shifted_step_copy)
  with False assms(5) show ?thesis
    by (auto simp: std_copy_def split: prod.splits option.splits)
qed

lemma erase_shift_total:
  assumes "shifted a b F L D 0 m1" and "F \<le> L" and "L \<le> S" and "S \<le> length b"
    and "nothrow_move_constructible tr \<or> budget m1 = None"
  shows "\<exists>m2. (if nothrow_move_constructible tr then std_move tr (Some a) L S F m1
               else std_copy (Some a) L S F m1) = (None, m2)"
proof (cases "nothrow_move_constructible tr")
  case True
  have "\<exists>s'. for_loop 0 (S - L)
           (\<lambda>i m. bind_err (read_slot (Some a) (L + i) m)
                     (\<lambda>x. assign_move tr (Some a) (F + i) x m)) m1 = (None, S - L, s') \<and>
          shifted a b F L D (S - L) s'"
  proof (rule for_loop_total [where I = "shifted a b F L D"])
    fix i s assume "i < S - L" and sh: "shifted a b F L D i s"
    then have lt: "L + i < length b" using assms(3,4) by simp
    from shifted_write [OF sh assms(2) lt, of s]
    show "\<exists>s'. bind_err (read_slot (Some a) (L + i) s)
                  (\<lambda>x. assign_move tr (Some a) (F + i) x s) = Inr s' \<and>
               shifted a b F L D (Suc i) s'"
      using True by (auto simp: shifted_read [OF sh lt] bind_err_def assign_move_def)
  qed (use assms in simp_all)
  with True show ?thesis by (auto simp: std_move_def)
next
  case False
  with assms(5) have nb: "budget m1 = None" by simp
  have "\<exists>s'. for_loop 0 (S - L)
           (\<lambda>i m. bind_err (read_slot (Some a) (L + i) m)
                     (\<lambda>x. assign_copy (Some a) (F + i) x m)) m1 = (None, S - L, s') \<and>
          (shifted a b F L D (S - L) s' \<and> budget s' = None)"
  proof (rule for_loop_total [where I = "\<lambda>i m. shifted a b F L D i m \<and> budget m = None"])
    fix i s assume "i < S - L" and "shifted a b F L D i s \<and> budget s = None"
    then have lt: "L + i < length b" and sh: "shifted a b F L D i s" and b: "budget s = None"
      using assms(3,4) by simp_all
    from shifted_write [OF sh assms(2) lt, of s]
    show "\<exists>s'. bind_err (read_slot (Some a) (L + i) s)
                  (\<lambda>x. assign_copy (Some a) (F + i) x s) = Inr s' \<and>
               (shifted a b F L D (Suc i) s' \<and> budget s' = None)"
      using b by (auto simp: shifted_read [OF sh lt] bind_err_def assign_copy_def charge_unlimited)
  qed (use assms nb in simp_all)
  with False show ?thesis by (auto simp: std_copy_def)
qed

lemma shifted_elements:
  assumes "shifted a b F L D (S - L) m2" and "F \<le> L" and "L \<le> S" and "S \<le> length b"
    and "m_vector v = Some a"
  shows "elements (v\<lparr>m_size := S - (L - F)\<rparr>) m2 = take F (take S b) @ drop L (take S b)"
proof -
  from assms(1) obtain bi where bi: "blocks m2 a = Some bi"
    "take (F + (S - L)) bi = take F b @ take (S - L) (drop L b)"
    by (auto simp: shifted_def)
  have "S - (L - F) = F + (S - L)" using assms(2,3) by simp
  then show ?thesis
    using bi assms by (simp add: elements_def drop_take min_def)
qed

lemma erase_range_null:
  assumes "m_vector v = None" and "m_size v = 0"
  shows "erase_range tr 0 0 v mem = (Inr 0, v, mem)"
  using assms
  by (simp add: erase_range_def for_loop_stop std_move_def std_copy_def)

lemma erase_range_block:
  assumes v: "m_vector v = Some a" "blocks mem a = Some b" "m_size v \<le> length b"
    and r: "first \<le> last'" "last' \<le> m_size v"
  shows "\<exists>r v' mem'. erase_range tr first last' v mem = (r, v', mem') \<and>
           m_capacity v' = m_capacity v \<and> m_vector v' = m_vector v \<and>
           (\<forall>it. r = Inr it \<longrightarrow>
              it = (if last' = m_size v then last' else first) \<and>
              m_size v' = m_size v - (last' - first) \<and>
              elements v' mem' = take first (elements v mem) @ drop last' (elements v mem) \<and>
              destroyed mem' = destroyed mem @ take (last' - first) (drop first (elements v mem))) \<and>
           (nothrow_move_constructible tr \<or> budget mem = None \<longrightarrow> (\<exists>it. r = Inr it))"
proof -
  let ?D = "destroyed mem @ take (last' - first) (drop first b)"
  let ?m1 = "mem\<lparr>blocks := (blocks mem)(a := Some (take first b @ replicate (last' - first) None @ drop last' b)),
                 destroyed := ?D\<rparr>"
  let ?shift = "if nothrow_move_constructible tr
                then std_move tr (Some a) last' (m_size v) first ?m1
                else std_copy (Some a) last' (m_size v) first ?m1"
  have L: "last' \<le> length b" using v r by simp
  have d: "for_loop first last' (\<lambda>index. traits_destroy (Some a) index) mem = (None, last', ?m1)"
    using v(2) L r(1) by (rule destroy_loop)
  have sh0: "shifted a b first last' ?D 0 ?m1"
    using v(2) r(1) L by (rule shifted_start)
  have e: "erase_range tr first last' v mem =
      (case ?shift of
         (Some e, mem2) \<Rightarrow> (Inl e, v, mem2)
       | (None, mem2) \<Rightarrow>
           (Inr (if last' = m_size v then last' else first),
            v\<lparr>m_size := m_size v - (last' - first)\<rparr>, mem2))"
    using v(1) r by (simp add: erase_range_def d Let_def)
  have dr: "take (last' - first) (drop first (take (m_size v) b)) = take (last' - first) (drop first b)"
    using r by (simp add: drop_take min_def)
  obtain e2 m2 where s: "?shift = (e2, m2)" by (cases ?shift)
  show ?thesis
  proof (cases e2)
    case None
    with s have "shifted a b first last' ?D (m_size v - last') m2"
      using erase_shift_result [OF sh0 r(1) r(2) v(3)] by simp
    then have "elements (v\<lparr>m_size := m_size v - (last' - first)\<rparr>) m2 =
                 take first (take (m_size v) b) @ drop last' (take (m_size v) b)"
      and "destroyed m2 = ?D"
      using shifted_elements [OF _ r(1) r(2) v(3) v(1)] by (auto simp: shifted_def)
    then show ?thesis
      unfolding e s using None v(1,2) dr by (simp add: elements_def)
  next
    case (Some err)
    have "\<not> (nothrow_move_constructible tr \<or> budget mem = None)"
    proof
      assume "nothrow_move_constructible tr \<or> budget mem = None"
      then have "nothrow_move_constructible tr \<or> budget ?m1 = None" by simp
      from erase_shift_total [OF sh0 r(1) r(2) v(3) this] s Some show False by simp
    qed
    then show ?thesis
      unfolding e s using Some by simp
  qed
qed

text \<open>
  C8: on a well-formed vector and a valid range \<open>[first, last)\<close>, \<^verbatim>\<open>erase\<close> never changes
  the capacity or the base address. When it completes, it has destroyed the elements of
  the range (they are logged, in order), the size is smaller by exactly \<open>last - first\<close>,
  and the contents are the elements before \<open>first\<close> followed by the elements from \<open>last\<close>
  on, in their order. It completes whenever no element operation throws (the element type
  is nothrow move constructible, or no copy assignment fails).
\<close>

theorem erase_range_correct:
  assumes "well_formed mem v" and "first \<le> last'" and "last' \<le> size_vec v"
  shows "capacity (vec_of (erase_range tr first last' v mem)) = capacity v \<and>
         m_vector (vec_of (erase_range tr first last' v mem)) = m_vector v \<and>
         (\<forall>it. fst (erase_range tr first last' v mem) = Inr it \<longrightarrow>
            size_vec (vec_of (erase_range tr first last' v mem)) = size_vec v - (last' - first) \<and>
            elements (vec_of (erase_range tr first last' v mem))
                     (mem_of (erase_range tr first last' v mem))
              = take first (elements v mem) @ drop last' (elements v mem) \<and>
            destroyed (mem_of (erase_range tr first last' v mem))
              = destroyed mem @ take (last' - first) (drop first (elements v mem))) \<and>
         (nothrow_move_constructible tr \<or> budget mem = None \<longrightarrow>
            (\<exists>it. fst (erase_range tr first last' v mem) = Inr it))"
proof (cases "m_vector v")
  case None
  with assms have z: "m_size v = 0" "first = 0" "last' = 0"
    by (simp_all add: well_formed_def size_vec_def)
  show ?thesis
    using None z
    by (simp add: erase_range_null vec_of_def mem_of_def capacity_def size_vec_def elements_def)
next
  case (Some a)
  with assms(1) obtain b where b: "blocks mem a = Some b" "m_size v \<le> length b"
    by (auto simp: well_formed_def split: option.splits)
  from erase_range_block [OF Some b assms(2) assms(3) [unfolded size_vec_def], of tr]
  obtain r v' mem' where eq: "erase_range tr first last' v mem = (r, v', mem')"
    and c: "m_capacity v' = m_capacity v" "m_vector v' = m_vector v"
    and ok: "\<forall>it. r = Inr it \<longrightarrow>
              it = (if last' = m_size v then last' else first) \<and>
              m_size v' = m_size v - (last' - first) \<and>
              elements v' mem' = take first (elements v mem) @ drop last' (elements v mem) \<and>
              destroyed mem' = destroyed mem @ take (last' - first) (drop first (elements v mem))"
    and tot: "nothrow_move_constructible tr \<or> budget mem = None \<longrightarrow> (\<exists>it. r = Inr it)"
    by (elim exE conjE) (rule that, assumption+)
  show ?thesis
    unfolding eq vec_of_def mem_of_def capacity_def size_vec_def
    using c ok tot by simp
qed

text \<open>\<^verbatim>\<open>erase\<close> of \<open>[1, 3)\<close> on \<open>{10, 20, 30, 40}\<close> yields \<open>{10, 40}\<close>.\<close>

theorem erase_range_correct_witness:
  "well_formed (mem_of ten_to_forty) (vec_of ten_to_forty) \<and>
   (1::nat) \<le> 3 \<and> 3 \<le> size_vec (vec_of ten_to_forty) \<and>
   elements (vec_of ten_to_forty) (mem_of ten_to_forty) = [Some 10, Some 20, Some 30, Some 40] \<and>
   fst (erase_range std_traits 1 3 (vec_of ten_to_forty) (mem_of ten_to_forty)) = Inr 1 \<and>
   capacity (vec_of (erase_range std_traits 1 3 (vec_of ten_to_forty) (mem_of ten_to_forty))) = 4 \<and>
   size_vec (vec_of (erase_range std_traits 1 3 (vec_of ten_to_forty) (mem_of ten_to_forty))) = 2 \<and>
   elements (vec_of (erase_range std_traits 1 3 (vec_of ten_to_forty) (mem_of ten_to_forty)))
            (mem_of (erase_range std_traits 1 3 (vec_of ten_to_forty) (mem_of ten_to_forty)))
     = [Some 10, Some 40] \<and>
   destroyed (mem_of (erase_range std_traits 1 3 (vec_of ten_to_forty) (mem_of ten_to_forty)))
     = [Some 20, Some 30]"
proof -
  have wf: "well_formed (mem_of ten_to_forty) (vec_of ten_to_forty)"
    by code_simp
  have sz: "size_vec (vec_of ten_to_forty) = 4" and cap: "capacity (vec_of ten_to_forty) = 4"
    by code_simp+
  have el: "elements (vec_of ten_to_forty) (mem_of ten_to_forty)
              = [Some 10, Some 20, Some 30, Some 40]"
    and de: "destroyed (mem_of ten_to_forty) = []"
    by code_simp+
  have it: "fst (erase_range std_traits 1 3 (vec_of ten_to_forty) (mem_of ten_to_forty)) = Inr 1"
    by code_simp
  have r: "(1::nat) \<le> 3" "3 \<le> size_vec (vec_of ten_to_forty)"
    by (simp_all add: sz)
  show ?thesis
    using erase_range_correct [OF wf r, of std_traits] wf sz cap el de it by simp
qed

section \<open>Growth (C1)\<close>

subsection \<open>Element operations that cannot fail\<close>

lemma calm_block:
  "calm L nx m \<Longrightarrow> L a = Some n \<Longrightarrow> \<exists>b. blocks m a = Some b \<and> length b = n"
  by (auto simp: calm_def layout_def)

lemma layout_same_blocks: "blocks m' = blocks m \<Longrightarrow> layout m' = layout m"
  by (simp add: layout_def fun_eq_iff)

lemma write_slot_calm:
  assumes "calm L nx m" and "L a = Some n" and "i < n"
  shows "\<exists>m'. write_slot (Some a) i x m = Inr m' \<and> calm L nx m'"
proof -
  from calm_block [OF assms(1,2)] obtain b where b: "blocks m a = Some b" "length b = n"
    by blast
  let ?m' = "m\<lparr>blocks := (blocks m)(a := Some (b[i := x]))\<rparr>"
  have w: "write_slot (Some a) i x m = Inr ?m'"
    using b assms(3) by (simp add: write_slot_def)
  have "layout ?m' = layout m"
    using b by (auto simp: layout_def fun_eq_iff)
  then have "calm L nx ?m'"
    using assms(1) by (simp add: calm_def)
  with w show ?thesis by blast
qed

lemma read_slot_calm:
  assumes "calm L nx m" and "L a = Some n" and "i < n"
  shows "\<exists>x. read_slot (Some a) i m = Inr x"
proof -
  from calm_block [OF assms(1,2)] obtain b where b: "blocks m a = Some b" "length b = n"
    by blast
  then show ?thesis
    using assms(3) by (simp add: read_slot_def)
qed

lemma charge_calm: "calm L nx m \<Longrightarrow> charge m = Inr m"
  by (simp add: calm_def charge_def)

lemma construct_copy_calm:
  assumes "calm L nx m" and "L a = Some n" and "i < n"
  shows "\<exists>m'. traits_construct_copy (Some a) i x m = Inr m' \<and> calm L nx m'"
proof -
  from write_slot_calm [OF assms] obtain m' where
    "write_slot (Some a) i x m = Inr m'" "calm L nx m'" by blast
  then show ?thesis
    by (simp add: traits_construct_copy_def bind_err_def charge_calm [OF assms(1)])
qed

lemma construct_move_calm:
  assumes "calm L nx m" and "L a = Some n" and "i < n"
  shows "\<exists>m'. traits_construct_move tr (Some a) i x m = Inr m' \<and> calm L nx m'"
proof -
  from write_slot_calm [OF assms] obtain m' where
    "write_slot (Some a) i x m = Inr m'" "calm L nx m'" by blast
  then show ?thesis
    by (simp add: traits_construct_move_def bind_err_def charge_calm [OF assms(1)])
qed

lemma assign_copy_calm:
  assumes "calm L nx m" and "L a = Some n" and "i < n"
  shows "\<exists>m'. assign_copy (Some a) i x m = Inr m' \<and> calm L nx m'"
proof -
  from write_slot_calm [OF assms] obtain m' where
    "write_slot (Some a) i x m = Inr m'" "calm L nx m'" by blast
  then show ?thesis
    by (simp add: assign_copy_def bind_err_def charge_calm [OF assms(1)])
qed

lemma assign_move_calm:
  assumes "calm L nx m" and "L a = Some n" and "i < n"
  shows "\<exists>m'. assign_move tr (Some a) i x m = Inr m' \<and> calm L nx m'"
proof -
  from write_slot_calm [OF assms] obtain m' where
    "write_slot (Some a) i x m = Inr m'" "calm L nx m'" by blast
  then show ?thesis
    by (simp add: assign_move_def bind_err_def charge_calm [OF assms(1)])
qed

lemma destroy_calm:
  assumes "calm L nx m" and "L a = Some n" and "i < n"
  shows "\<exists>m'. traits_destroy (Some a) i m = Inr m' \<and> calm L nx m'"
proof -
  from read_slot_calm [OF assms] obtain x where x: "read_slot (Some a) i m = Inr x" ..
  from write_slot_calm [OF assms] obtain m1 where
    m1: "write_slot (Some a) i None m = Inr m1" "calm L nx m1" by blast
  have "layout (m1\<lparr>destroyed := destroyed m1 @ [x]\<rparr>) = layout m1"
    by (rule layout_same_blocks) simp
  then have "calm L nx (m1\<lparr>destroyed := destroyed m1 @ [x]\<rparr>)"
    using m1(2) by (simp add: calm_def)
  with x m1(1) show ?thesis
    by (simp add: traits_destroy_def bind_err_def)
qed

text \<open>Reading slot \<open>src i\<close> of one block and writing it to slot \<open>dst i\<close> of another.\<close>

lemma transfer_loop_calm:
  assumes "calm L nx m" and "L a = Some n" and "L t = Some c"
    and "\<And>i. i < k \<Longrightarrow> src i < n \<and> dst i < c"
    and "\<And>i x m. put i x m = traits_construct_copy (Some t) (dst i) x m \<or>
                   put i x m = traits_construct_move tr (Some t) (dst i) x m \<or>
                   put i x m = assign_copy (Some t) (dst i) x m \<or>
                   put i x m = assign_move tr (Some t) (dst i) x m"
  shows "\<exists>m'. for_loop 0 k (\<lambda>i m. bind_err (read_slot (Some a) (src i) m) (\<lambda>x. put i x m)) m
                 = (None, k, m') \<and> calm L nx m'"
proof (rule for_loop_total [where I = "\<lambda>i m. calm L nx m"])
  fix i :: nat and s :: "'a memory" assume i: "i < k" and s: "calm L nx s"
  from assms(4) [OF i] have r: "src i < n" "dst i < c" by simp_all
  from read_slot_calm [OF s assms(2) r(1)] obtain x where
    x: "read_slot (Some a) (src i) s = Inr x" ..
  have "\<exists>s'. put i x s = Inr s' \<and> calm L nx s'"
    using assms(5) [of i x s] construct_copy_calm [OF s assms(3) r(2), of x]
      construct_move_calm [OF s assms(3) r(2), of tr x]
      assign_copy_calm [OF s assms(3) r(2), of x]
      assign_move_calm [OF s assms(3) r(2), of tr x]
    by auto
  with x show "\<exists>s'. bind_err (read_slot (Some a) (src i) s) (\<lambda>x. put i x s) = Inr s' \<and> calm L nx s'"
    by (simp add: bind_err_def)
qed (use assms(1) in simp_all)

lemma destroy_loop_calm:
  assumes "calm L nx m" and "L a = Some n" and "off + k \<le> n"
  shows "\<exists>m'. for_loop 0 k (\<lambda>index. traits_destroy (Some a) (off + index)) m = (None, k, m') \<and>
              calm L nx m'"
proof (rule for_loop_total [where I = "\<lambda>i m. calm L nx m"])
  fix i :: nat and s :: "'a memory" assume "i < k" and s: "calm L nx s"
  then have "off + i < n" using assms(3) by simp
  from destroy_calm [OF s assms(2) this]
  show "\<exists>s'. traits_destroy (Some a) (off + i) s = Inr s' \<and> calm L nx s'" .
qed (use assms(1) in simp_all)

lemma fill_loop_calm:
  assumes "calm L nx m" and "L a = Some n" and "off + k \<le> n"
  shows "\<exists>m'. for_loop 0 k (\<lambda>index. traits_construct_copy (Some a) (off + index) x) m
                 = (None, k, m') \<and> calm L nx m'"
proof (rule for_loop_total [where I = "\<lambda>i m. calm L nx m"])
  fix i :: nat and s :: "'a memory" assume "i < k" and s: "calm L nx s"
  then have "off + i < n" using assms(3) by simp
  from construct_copy_calm [OF s assms(2) this]
  show "\<exists>s'. traits_construct_copy (Some a) (off + i) x s = Inr s' \<and> calm L nx s'" .
qed (use assms(1) in simp_all)

subsection \<open>Reallocation without failure\<close>

lemma allocate_calm:
  assumes "budget mem = None" and "consistent mem"
  shows "calm ((layout mem)(next_addr mem := Some cap)) (Suc (next_addr mem))
           (mem\<lparr>blocks := (blocks mem)(next_addr mem := Some (replicate cap None)),
                next_addr := Suc (next_addr mem)\<rparr>)"
  using assms by (auto simp: calm_def layout_def fun_eq_iff)

lemma deallocate_calm:
  assumes "calm L nx m" and "L a = Some n"
  shows "\<exists>m'. traits_deallocate (Some a) m = Inr m' \<and> calm (L(a := None)) nx m'"
proof -
  from calm_block [OF assms] obtain b where b: "blocks m a = Some b" by blast
  have "layout (m\<lparr>blocks := (blocks m)(a := None)\<rparr>) = (layout m)(a := None)"
    by (auto simp: layout_def fun_eq_iff)
  then have "calm (L(a := None)) nx (m\<lparr>blocks := (blocks m)(a := None)\<rparr>)"
    using assms(1) by (simp add: calm_def)
  with b show ?thesis
    by (simp add: traits_deallocate_def)
qed

lemma reallocate_strong_guarantee_calm:
  assumes b: "budget mem = None" and c: "consistent mem"
    and v: "(m_vector v = None \<and> m_size v = 0) \<or>
            (\<exists>a n. m_vector v = Some a \<and> layout mem a = Some n \<and> m_size v \<le> n)"
    and s: "m_size v \<le> cap"
  shows "\<exists>L' mem'. reallocate_strong_guarantee tr cap v mem =
            (None, v\<lparr>m_capacity := cap, m_size := m_size v, m_vector := Some (next_addr mem)\<rparr>, mem') \<and>
          calm L' (Suc (next_addr mem)) mem' \<and> L' (next_addr mem) = Some cap \<and>
          (\<forall>a'. Suc (next_addr mem) \<le> a' \<longrightarrow> L' a' = None)"
proof -
  let ?t = "next_addr mem"
  let ?mem0 = "mem\<lparr>blocks := (blocks mem)(next_addr mem := Some (replicate cap None)),
                  next_addr := Suc (next_addr mem)\<rparr>"
  let ?L0 = "(layout mem)(?t := Some cap)"
  have al: "traits_allocate cap mem = (?t, ?mem0)"
    by (simp add: traits_allocate_def)
  have c0: "calm ?L0 (Suc ?t) ?mem0"
    using b c by (rule allocate_calm)
  have Lt: "?L0 ?t = Some cap" by simp
  have above: "\<And>a'. ?t \<le> a' \<Longrightarrow> layout mem a' = None"
    using c by (simp add: consistent_def layout_def)
  from v show ?thesis
  proof
    assume n: "m_vector v = None \<and> m_size v = 0"
    have "reallocate_strong_guarantee tr cap v mem =
            (None, v\<lparr>m_capacity := cap, m_size := m_size v, m_vector := Some ?t\<rparr>, ?mem0)"
      using n
      by (simp add: reallocate_strong_guarantee_def al for_loop_stop
          deallocate_destruct_keep_size_and_capacity_def traits_deallocate_def and_then_def)
    moreover have "\<forall>a'. Suc ?t \<le> a' \<longrightarrow> ?L0 a' = None"
      using above by simp
    ultimately show ?thesis
      using c0 Lt by blast
  next
    assume "\<exists>a n. m_vector v = Some a \<and> layout mem a = Some n \<and> m_size v \<le> n"
    then obtain a n where a: "m_vector v = Some a" "layout mem a = Some n" "m_size v \<le> n"
      by blast
    have ne: "a \<noteq> ?t"
      using a(2) above [of a] by auto
    have La: "?L0 a = Some n"
      using a(2) ne by simp
    have range: "\<And>i. i < m_size v \<Longrightarrow> i < n \<and> i < cap"
      using a(3) s by simp
    let ?moving = "nothrow_move_constructible tr \<or>
           \<not> nothrow_move_constructible tr \<and> \<not> copy_constructible tr"
    have mv: "\<exists>mem1. for_loop 0 (m_size v)
               (\<lambda>index m. bind_err (read_slot (Some a) index m)
                             (\<lambda>x. traits_construct_move tr (Some ?t) index x m)) ?mem0
                = (None, m_size v, mem1) \<and> calm ?L0 (Suc ?t) mem1"
      by (rule transfer_loop_calm [where src = "\<lambda>i. i" and dst = "\<lambda>i. i" and tr = tr,
            OF c0 La Lt range]) simp_all
    have cp: "\<exists>mem1. for_loop 0 (m_size v)
               (\<lambda>index m. bind_err (read_slot (Some a) index m)
                             (\<lambda>x. traits_construct_copy (Some ?t) index x m)) ?mem0
                = (None, m_size v, mem1) \<and> calm ?L0 (Suc ?t) mem1"
      by (rule transfer_loop_calm [where src = "\<lambda>i. i" and dst = "\<lambda>i. i" and tr = tr,
            OF c0 La Lt range]) simp_all
    have "\<exists>mem1. (if ?moving
        then for_loop 0 (m_size v)
               (\<lambda>index m. bind_err (read_slot (Some a) index m)
                             (\<lambda>x. traits_construct_move tr (Some ?t) index x m)) ?mem0
        else for_loop 0 (m_size v)
               (\<lambda>index m. bind_err (read_slot (Some a) index m)
                             (\<lambda>x. traits_construct_copy (Some ?t) index x m)) ?mem0)
       = (None, m_size v, mem1) \<and> calm ?L0 (Suc ?t) mem1"
      using mv cp by (cases ?moving) simp_all
    then obtain mem1 where l1:
      "(if ?moving
        then for_loop 0 (m_size v)
               (\<lambda>index m. bind_err (read_slot (Some a) index m)
                             (\<lambda>x. traits_construct_move tr (Some ?t) index x m)) ?mem0
        else for_loop 0 (m_size v)
               (\<lambda>index m. bind_err (read_slot (Some a) index m)
                             (\<lambda>x. traits_construct_copy (Some ?t) index x m)) ?mem0)
       = (None, m_size v, mem1)" and c1: "calm ?L0 (Suc ?t) mem1"
      by blast
    have "\<exists>mem2. for_loop 0 (m_size v) (\<lambda>index. traits_destroy (Some a) (0 + index)) mem1
                   = (None, m_size v, mem2) \<and> calm ?L0 (Suc ?t) mem2"
      using a(3) by (intro destroy_loop_calm [where L = ?L0 and n = n, OF c1 La]) simp
    then obtain mem2 where l2:
      "for_loop 0 (m_size v) (\<lambda>index. traits_destroy (Some a) index) mem1 = (None, m_size v, mem2)"
      and c2: "calm ?L0 (Suc ?t) mem2"
      by auto
    obtain mem3 where l3: "traits_deallocate (Some a) mem2 = Inr mem3"
      and c3: "calm (?L0(a := None)) (Suc ?t) mem3"
      using deallocate_calm [OF c2 La] by blast
    have "reallocate_strong_guarantee tr cap v mem =
            (None, v\<lparr>m_capacity := cap, m_size := m_size v, m_vector := Some ?t\<rparr>, mem3)"
      using l1 unfolding reallocate_strong_guarantee_def al a(1)
      by (auto simp: deallocate_destruct_keep_size_and_capacity_def a(1) l2 l3 and_then_def
          split: if_splits)
    moreover have "(?L0(a := None)) ?t = Some cap"
      using ne by simp
    moreover have "\<forall>a'. Suc ?t \<le> a' \<longrightarrow> (?L0(a := None)) a' = None"
      using above by simp
    ultimately show ?thesis
      using c3 by blast
  qed
qed

subsection \<open>Insertion of one element without failure\<close>

lemma shift_loop_calm:
  assumes "calm L nx m" and "L t = Some c" and "cur \<le> sz" and "sz - cur \<le> l"
    and "l \<le> cp" and "cp \<le> c"
  shows "\<exists>k' m'. shift_loop (Some t) sz cur cp l k m = (None, k', m') \<and> calm L nx m'"
  using assms
proof (induction "sz - cur" arbitrary: cur cp l k m)
  case 0
  then have "cur = sz" by simp
  then show ?case
    using "0.prems"(1) by (subst shift_loop.simps) simp
next
  case (Suc d)
  then have lt: "cur < sz" and l: "0 < l" and cp: "0 < cp" by simp_all
  have r1: "l - 1 < c" and r2: "cp - 1 < c"
    using Suc.prems l cp by simp_all
  from read_slot_calm [OF Suc.prems(1) Suc.prems(2) r1] obtain x where
    x: "read_slot (Some t) (l - 1) m = Inr x" ..
  from assign_copy_calm [OF Suc.prems(1) Suc.prems(2) r2, of x] obtain m1 where
    m1: "assign_copy (Some t) (cp - 1) x m = Inr m1" "calm L nx m1" by blast
  have d: "d = sz - Suc cur" using Suc.hyps(2) by simp
  have "\<exists>k' m'. shift_loop (Some t) sz (Suc cur) (cp - 1) (l - 1) (Suc k) m1 = (None, k', m') \<and>
                 calm L nx m'"
    using Suc.prems lt l by (intro Suc.hyps(1) [OF d m1(2)]) simp_all
  then show ?case
    using lt l cp x m1(1) by (subst shift_loop.simps) (simp add: bind_err_def)
qed

lemma shift_and_construct_one_calm:
  assumes c0: "calm L nx m" and p: "m_vector v = Some t" and Lt: "L t = Some c"
    and room: "m_size v + 1 \<le> c" and pos: "pos \<le> m_size v"
  shows "\<exists>m'. shift_and_construct pos val 1 v m = (None, v\<lparr>m_size := m_size v + 1\<rparr>, m') \<and>
              calm L nx m'"
proof -
  let ?sz = "m_size v"
  have "\<exists>m1. for_loop 0 1
          (\<lambda>index m. bind_err (read_slot (Some t) (?sz + index) m)
                        (\<lambda>x. traits_construct_copy (Some t) (?sz + index) x m)) m
          = (None, 1, m1) \<and> calm L nx m1"
    using room
    by (intro transfer_loop_calm [where src = "\<lambda>i. ?sz + i" and dst = "\<lambda>i. ?sz + i" and tr = tr,
          OF c0 Lt Lt]) simp_all
  then obtain m1 where l1: "for_loop 0 1
          (\<lambda>index m. bind_err (read_slot (Some t) (?sz + index) m)
                        (\<lambda>x. traits_construct_copy (Some t) (?sz + index) x m)) m
          = (None, 1, m1)" and c1: "calm L nx m1"
    by blast
  have "\<exists>k' m2. shift_loop (Some t) ?sz pos (?sz + 1) ?sz 0 m1 = (None, k', m2) \<and> calm L nx m2"
    using pos room by (intro shift_loop_calm [OF c1 Lt]) simp_all
  then obtain k' m2 where l2: "shift_loop (Some t) ?sz pos (?sz + 1) ?sz 0 m1 = (None, k', m2)"
    and c2: "calm L nx m2"
    by blast
  have "\<exists>m3. for_loop 0 1 (\<lambda>index. traits_destroy (Some t) (pos + index)) m2 = (None, 1, m3) \<and>
             calm L nx m3"
    using pos room by (intro destroy_loop_calm [OF c2 Lt]) simp
  then obtain m3 where l3:
    "for_loop 0 1 (\<lambda>index. traits_destroy (Some t) (pos + index)) m2 = (None, 1, m3)"
    and c3: "calm L nx m3"
    by blast
  have "\<exists>m4. for_loop 0 1 (\<lambda>index. traits_construct_copy (Some t) (pos + index) (Some val)) m3
               = (None, 1, m4) \<and> calm L nx m4"
    using pos room by (intro fill_loop_calm [OF c3 Lt]) simp
  then obtain m4 where l4:
    "for_loop 0 1 (\<lambda>index. traits_construct_copy (Some t) (pos + index) (Some val)) m3
       = (None, 1, m4)"
    and c4: "calm L nx m4"
    by blast
  have "shift_and_construct pos val 1 v m = (None, v\<lparr>m_size := m_size v + 1\<rparr>, m4)"
    by (simp only: shift_and_construct_def p Let_def l1 l2 l3 l4 prod.case option.case)
  with c4 show ?thesis by blast
qed

lemma move_backward_calm:
  assumes c0: "calm L nx m" and Lt: "L t = Some c" and "pos \<le> sz" and "sz + 1 \<le> c"
  shows "\<exists>m'. std_move_backward tr (Some t) pos sz (sz + 1) m = (None, m') \<and> calm L nx m'"
proof -
  have "\<exists>m'. for_loop 0 (sz - pos)
          (\<lambda>i m. if sz + 1 \<le> i then Inl InvalidAccess
                  else bind_err (read_slot (Some t) (sz - Suc i) m)
                         (\<lambda>x. assign_move tr (Some t) (sz + 1 - Suc i) x m)) m
          = (None, sz - pos, m') \<and> calm L nx m'"
  proof (rule for_loop_total [where I = "\<lambda>i m. calm L nx m"])
    fix i :: nat and s :: "'a memory" assume i: "i < sz - pos" and s: "calm L nx s"
    then have r: "sz - Suc i < c" "sz + 1 - Suc i < c" "\<not> sz + 1 \<le> i"
      using assms(3,4) by simp_all
    from read_slot_calm [OF s Lt r(1)] obtain x where
      x: "read_slot (Some t) (sz - Suc i) s = Inr x" ..
    from assign_move_calm [OF s Lt r(2), of tr x] obtain s' where
      "assign_move tr (Some t) (sz + 1 - Suc i) x s = Inr s'" "calm L nx s'" by blast
    with x r(3)
    show "\<exists>s'. (if sz + 1 \<le> i then Inl InvalidAccess
                 else bind_err (read_slot (Some t) (sz - Suc i) s)
                        (\<lambda>x. assign_move tr (Some t) (sz + 1 - Suc i) x s)) = Inr s' \<and>
               calm L nx s'"
      by (simp add: bind_err_def)
  qed (use c0 in simp_all)
  then obtain m' where e: "for_loop 0 (sz - pos)
          (\<lambda>i m. if sz + 1 \<le> i then Inl InvalidAccess
                  else bind_err (read_slot (Some t) (sz - Suc i) m)
                         (\<lambda>x. assign_move tr (Some t) (sz + 1 - Suc i) x m)) m
          = (None, sz - pos, m')" and c: "calm L nx m'"
    by blast
  have "std_move_backward tr (Some t) pos sz (sz + 1) m = (None, m')"
    by (simp only: std_move_backward_def e prod.case)
  with c show ?thesis by blast
qed

lemma shift_and_construct_args_calm:
  assumes c0: "calm L nx m" and p: "m_vector v = Some t" and Lt: "L t = Some c"
    and room: "m_size v + 1 \<le> c" and pos: "pos \<le> m_size v"
  shows "\<exists>m'. shift_and_construct_args tr rv pos val v m =
                 (None, v\<lparr>m_size := m_size v + 1\<rparr>, m') \<and> calm L nx m'"
proof (cases "rv \<and> (nothrow_move_constructible tr \<or>
                      (\<not> nothrow_move_constructible tr \<and> \<not> copy_constructible tr))")
  case True
  let ?sz = "m_size v"
  have sz: "?sz < c" and ps: "pos < c" using room pos by simp_all
  from read_slot_calm [OF c0 Lt sz] obtain x where x: "read_slot (Some t) ?sz m = Inr x" ..
  from construct_move_calm [OF c0 Lt sz, of tr x] obtain m1 where
    m1: "traits_construct_move tr (Some t) ?sz x m = Inr m1" "calm L nx m1" by blast
  from move_backward_calm [OF m1(2) Lt pos room, of tr] obtain m2 where
    m2: "std_move_backward tr (Some t) pos ?sz (?sz + 1) m1 = (None, m2)" "calm L nx m2" by blast
  from construct_move_calm [OF m2(2) Lt ps, of tr "Some val"] obtain m3 where
    m3: "traits_construct_move tr (Some t) pos (Some val) m2 = Inr m3" "calm L nx m3" by blast
  have "shift_and_construct_args tr rv pos val v m = (None, v\<lparr>m_size := m_size v + 1\<rparr>, m3)"
    using True
    by (simp only: shift_and_construct_args_def shift_and_construct_rv_def p Let_def
        x m1(1) m2(1) m3(1) bind_err_def sum.case prod.case option.case if_True)
  with m3(2) show ?thesis by blast
next
  case False
  then have "shift_and_construct_args tr rv pos val v m = shift_and_construct pos val 1 v m"
    by (auto simp: shift_and_construct_args_def shift_and_construct_rv_def)
  with shift_and_construct_one_calm [OF c0 p Lt room pos, of val] show ?thesis by simp
qed

subsection \<open>The capacity loop\<close>

lemma grow_capacity_unfold:
  "grow_capacity cap required =
     (if (if cap = 0 then 1 else cap) * 2 < required
      then grow_capacity ((if cap = 0 then 1 else cap) * 2) required
      else (if cap = 0 then 1 else cap) * 2)"
  by (subst grow_capacity.simps) (simp add: realloc_factor_def Let_def)

lemma grow_capacity_ge: "required \<le> grow_capacity cap required"
proof (induction cap required rule: grow_capacity.induct)
  case (1 cap required)
  show ?case
  proof (cases "(if cap = 0 then 1 else cap) * 2 < required")
    case True
    then have lt: "(if cap = 0 then 1 else cap) * realloc_factor < required"
      by (simp add: realloc_factor_def)
    have "grow_capacity cap required =
            grow_capacity ((if cap = 0 then 1 else cap) * 2) required"
      using True by (subst grow_capacity_unfold) simp
    with "1.IH" [OF refl lt, unfolded realloc_factor_def] show ?thesis
      by simp
  next
    case False
    then have "grow_capacity cap required = (if cap = 0 then 1 else cap) * 2"
      by (subst grow_capacity_unfold) simp
    with False show ?thesis
      by simp
  qed
qed

lemma grow_capacity_once:
  "required \<le> (if cap = 0 then 1 else cap) * 2 \<Longrightarrow>
   grow_capacity cap required = (if cap = 0 then 1 else cap) * 2"
  by (subst grow_capacity_unfold) simp

text \<open>
  The result is the start value (1 for capacity 0) doubled \<open>j\<close> times, with \<open>j \<ge> 1\<close> least
  such that the result reaches \<open>required\<close>.
\<close>

lemma grow_capacity_doubling:
  "\<exists>j. 1 \<le> j \<and> grow_capacity cap required = (if cap = 0 then 1 else cap) * 2 ^ j \<and>
        required \<le> grow_capacity cap required \<and>
        (j = 1 \<or> (if cap = 0 then 1 else cap) * 2 ^ (j - 1) < required)"
proof (induction cap required rule: grow_capacity.induct)
  case (1 cap required)
  let ?c = "(if cap = 0 then 1 else cap) * 2"
  show ?case
  proof (cases "?c < required")
    case True
    then have "(if cap = 0 then 1 else cap) * realloc_factor < required"
      by (simp add: realloc_factor_def)
    from "1.IH" [OF refl this, unfolded realloc_factor_def] obtain j where j: "1 \<le> j"
      "grow_capacity ?c required = (if ?c = 0 then 1 else ?c) * 2 ^ j"
      "j = 1 \<or> (if ?c = 0 then 1 else ?c) * 2 ^ (j - 1) < required"
      by blast
    have nz: "?c \<noteq> 0" by simp
    have g: "grow_capacity cap required = grow_capacity ?c required"
      using True by (subst grow_capacity_unfold) simp
    have e: "grow_capacity cap required = (if cap = 0 then 1 else cap) * 2 ^ Suc j"
      using j(2) nz by (simp add: g)
    have m: "(if cap = 0 then 1 else cap) * 2 ^ (Suc j - 1) < required"
    proof (cases "j = 1")
      case True
      with \<open>?c < required\<close> show ?thesis by simp
    next
      case False
      with j(1,3) nz have "?c * 2 ^ (j - 1) < required" by simp
      moreover have "(2::nat) * 2 ^ (j - 1) = 2 ^ j"
        using j(1) by (cases j) simp_all
      ultimately show ?thesis by (simp add: mult.assoc)
    qed
    show ?thesis
      using e m grow_capacity_ge [of required cap]
      by (intro exI [of _ "Suc j"]) simp
  next
    case False
    then have "grow_capacity cap required = ?c"
      by (subst grow_capacity_unfold) simp
    with False show ?thesis
      by (intro exI [of _ 1]) simp
  qed
qed

text \<open>
  In the range of capacities that \<^verbatim>\<open>max_size()\<close> admits, no value of the loop reaches
  \<open>2 ^ 64\<close>: the \<^verbatim>\<open>std::size_t\<close> arithmetic of the loop does not wrap around there.
\<close>

lemma grow_capacity_no_wrap:
  "cap \<le> max_size \<Longrightarrow> required \<le> max_size + 1 \<Longrightarrow> grow_capacity cap required < 2 ^ 64"
proof (induction cap required rule: grow_capacity.induct)
  case (1 cap required)
  let ?c = "(if cap = 0 then 1 else cap) * 2"
  have c: "?c < 2 ^ 64"
    using "1.prems"(1) by (simp add: max_size_def)
  show ?case
  proof (cases "?c < required")
    case True
    then have lt: "(if cap = 0 then 1 else cap) * realloc_factor < required"
      by (simp add: realloc_factor_def)
    have "?c \<le> max_size"
      using True "1.prems"(2) by simp
    from "1.IH" [OF refl lt, unfolded realloc_factor_def, OF this "1.prems"(2)]
    have "grow_capacity ?c required < 2 ^ 64" .
    moreover have "grow_capacity cap required = grow_capacity ?c required"
      using True by (subst grow_capacity_unfold) simp
    ultimately show ?thesis by simp
  next
    case False
    then have "grow_capacity cap required = ?c"
      by (subst grow_capacity_unfold) simp
    with c show ?thesis by simp
  qed
qed

subsection \<open>Emplace and push_back without failure\<close>

lemma calm_self: "budget m = None \<Longrightarrow> calm (layout m) (next_addr m) m"
  by (simp add: calm_def)

lemma calm_consistent:
  "calm L nx m \<Longrightarrow> (\<And>a. nx \<le> a \<Longrightarrow> L a = None) \<Longrightarrow> consistent m"
  by (auto simp: calm_def consistent_def layout_def)

lemma consistent_layout: "consistent m \<Longrightarrow> next_addr m \<le> a \<Longrightarrow> layout m a = None"
  by (simp add: consistent_def layout_def)

lemma calm_well_formed:
  assumes "calm L nx m" and "L t = Some c" and "m_vector v = Some t" and "m_capacity v = c"
    and "m_size v \<le> c"
  shows "well_formed m v"
proof -
  from calm_block [OF assms(1,2)] obtain b where "blocks m t = Some b" "length b = c" by blast
  with assms show ?thesis by (simp add: well_formed_def)
qed

lemma emplace_calm:
  assumes wf: "well_formed mem v" and co: "consistent mem" and bu: "budget mem = None"
    and pos: "pos \<le> m_size v"
  shows "\<exists>v' mem'. emplace tr rv pos val v mem = (Inr pos, v', mem') \<and>
           well_formed mem' v' \<and> consistent mem' \<and> budget mem' = None \<and>
           m_size v' = m_size v + 1 \<and>
           m_capacity v' =
             (if m_size v + 1 < m_capacity v then m_capacity v
              else grow_capacity (m_capacity v) (1 + m_size v))"
proof (cases "m_size v + 1 < m_capacity v")
  case True
  let ?L = "layout mem" and ?nx = "next_addr mem"
  have c0: "calm ?L ?nx mem" using bu by (rule calm_self)
  from wf True obtain a where a: "m_vector v = Some a" "?L a = Some (m_capacity v)"
    by (auto simp: well_formed_def layout_def split: option.splits)
  have above: "\<And>a'. ?nx \<le> a' \<Longrightarrow> ?L a' = None"
    using co by (rule consistent_layout)
  have "\<exists>mem'. emplace tr rv pos val v mem = (Inr pos, v\<lparr>m_size := m_size v + 1\<rparr>, mem') \<and>
               calm ?L ?nx mem'"
  proof (cases "pos = m_size v")
    case at_end: True
    have lt: "m_size v < m_capacity v" using True by simp
    have "\<exists>mem'. (if rv then traits_construct_move tr (Some a) (m_size v) (Some val) mem
                   else traits_construct_copy (Some a) (m_size v) (Some val) mem) = Inr mem' \<and>
                 calm ?L ?nx mem'"
      using construct_move_calm [OF c0 a(2) lt, of tr "Some val"]
        construct_copy_calm [OF c0 a(2) lt, of "Some val"]
      by (cases rv) simp_all
    then obtain mem' where m: "(if rv then traits_construct_move tr (Some a) (m_size v) (Some val) mem
                   else traits_construct_copy (Some a) (m_size v) (Some val) mem) = Inr mem'"
      and c: "calm ?L ?nx mem'"
      by blast
    have "emplace tr rv pos val v mem = (Inr pos, v\<lparr>m_size := m_size v + 1\<rparr>, mem')"
      using True at_end pos
      by (simp only: emplace_def Let_def a(1) m returning_def sum.case prod.case option.case
          if_True if_False not_True_eq_False refl)
    with c show ?thesis by blast
  next
    case False
    from shift_and_construct_args_calm [OF c0 a(1) a(2) _ pos, of tr rv val] True
    obtain mem' where m: "shift_and_construct_args tr rv pos val v mem =
        (None, v\<lparr>m_size := m_size v + 1\<rparr>, mem')" and c: "calm ?L ?nx mem'"
      by auto
    have "emplace tr rv pos val v mem = (Inr pos, v\<lparr>m_size := m_size v + 1\<rparr>, mem')"
      using True False pos
      by (simp only: emplace_def Let_def m returning_def sum.case prod.case option.case
          if_True if_False not_True_eq_False)
    with c show ?thesis by blast
  qed
  then obtain mem' where e: "emplace tr rv pos val v mem = (Inr pos, v\<lparr>m_size := m_size v + 1\<rparr>, mem')"
    and c: "calm ?L ?nx mem'"
    by blast
  have "well_formed mem' (v\<lparr>m_size := m_size v + 1\<rparr>)"
    using True a by (intro calm_well_formed [OF c a(2)]) simp_all
  moreover have "consistent mem'"
    using c above by (rule calm_consistent)
  moreover have "budget mem' = None"
    using c by (simp add: calm_def)
  ultimately show ?thesis
    using True e by simp
next
  case False
  let ?g = "grow_capacity (m_capacity v) (1 + m_size v)"
  let ?v1 = "v\<lparr>m_capacity := ?g\<rparr>"
  let ?t = "next_addr mem"
  have g: "1 + m_size v \<le> ?g" by (rule grow_capacity_ge)
  have old: "(m_vector ?v1 = None \<and> m_size ?v1 = 0) \<or>
             (\<exists>a n. m_vector ?v1 = Some a \<and> layout mem a = Some n \<and> m_size ?v1 \<le> n)"
    using wf by (auto simp: well_formed_def layout_def split: option.splits)
  have "m_size ?v1 \<le> ?g" using g by simp
  from reallocate_strong_guarantee_calm [OF bu co old this, of tr]
  obtain L' mem1 where r: "reallocate_strong_guarantee tr ?g ?v1 mem =
        (None, ?v1\<lparr>m_capacity := ?g, m_size := m_size ?v1, m_vector := Some ?t\<rparr>, mem1)"
    and c1: "calm L' (Suc ?t) mem1" and Lt: "L' ?t = Some ?g"
    and above: "\<And>a'. Suc ?t \<le> a' \<Longrightarrow> L' a' = None"
    by blast
  let ?v2 = "?v1\<lparr>m_capacity := ?g, m_size := m_size ?v1, m_vector := Some ?t\<rparr>"
  have p2: "m_vector ?v2 = Some ?t" by simp
  have room: "m_size ?v2 + 1 \<le> ?g" using g by simp
  have pos2: "pos \<le> m_size ?v2" using pos by simp
  from shift_and_construct_args_calm [OF c1 p2 Lt room pos2, of tr rv val]
  obtain mem2 where s: "shift_and_construct_args tr rv pos val ?v2 mem1 =
        (None, ?v2\<lparr>m_size := m_size ?v2 + 1\<rparr>, mem2)" and c2: "calm L' (Suc ?t) mem2"
    by blast
  let ?v3 = "?v2\<lparr>m_size := m_size ?v2 + 1\<rparr>"
  have m1: "m_capacity ?v1 = ?g" by simp
  have e: "emplace tr rv pos val v mem = (Inr pos, ?v3, mem2)"
    using False pos
    by (simp only: emplace_def Let_def m1 r and_then_def s returning_def sum.case prod.case
        option.case if_True if_False not_True_eq_False)
  have "well_formed mem2 ?v3"
    using g by (intro calm_well_formed [OF c2 Lt]) simp_all
  moreover have "consistent mem2"
    using c2 above by (rule calm_consistent)
  moreover have "budget mem2 = None"
    using c2 by (simp add: calm_def)
  ultimately show ?thesis
    using False e by simp
qed

lemma push_back_calm:
  assumes wf: "well_formed mem v" and co: "consistent mem" and bu: "budget mem = None"
  shows "\<exists>v' mem'. push_back tr val v mem = (None, v', mem') \<and>
           well_formed mem' v' \<and> consistent mem' \<and> budget mem' = None \<and>
           m_size v' = m_size v + 1 \<and>
           m_capacity v' =
             (if m_size v + 1 < m_capacity v then m_capacity v
              else grow_capacity (m_capacity v) (1 + m_size v))"
proof -
  from emplace_calm [OF wf co bu order_refl, of tr True val]
  obtain v' mem' where e: "emplace tr True (m_size v) val v mem = (Inr (m_size v), v', mem')"
    and r: "well_formed mem' v'" "consistent mem'" "budget mem' = None"
      "m_size v' = m_size v + 1"
      "m_capacity v' =
             (if m_size v + 1 < m_capacity v then m_capacity v
              else grow_capacity (m_capacity v) (1 + m_size v))"
    by (elim exE conjE) (rule that, assumption+)
  have "push_back tr val v mem = (None, v', mem')"
    using bu by (simp add: push_back_def emplace_back_def charge_def e completed_def)
  with r show ?thesis by blast
qed

text \<open>
  What the code does on successive appends, exactly: from size 0 and capacity 0, the
  capacity after \<open>k \<ge> 1\<close> appends is the least power of two above \<open>k\<close>.
\<close>

lemma doubled_step:
  assumes "(k = 0 \<and> c = 0) \<or> doubled k c"
  shows "doubled (k + 1) (if k + 1 < c then c else grow_capacity c (1 + k))"
  using assms
proof
  assume "k = 0 \<and> c = 0"
  moreover have "grow_capacity 0 (1 + 0) = 2"
    by (subst grow_capacity_once) simp_all
  moreover have "doubled 1 2"
    unfolding doubled_def by (intro exI [of _ 1]) simp
  ultimately show ?thesis by simp
next
  assume "doubled k c"
  then obtain n where n: "c = 2 ^ n" "k < c" "c \<le> 2 * k"
    by (auto simp: doubled_def)
  show ?thesis
  proof (cases "k + 1 < c")
    case True
    with n show ?thesis
      unfolding doubled_def by (auto intro!: exI [of _ n])
  next
    case False
    with n have kc: "k + 1 = c" by simp
    then have "c \<noteq> 0" by auto
    then have g: "grow_capacity c (1 + k) = c * 2"
      using kc by (subst grow_capacity_once) simp_all
    have "doubled (k + 1) (c * 2)"
      unfolding doubled_def using n kc by (intro exI [of _ "Suc n"]) simp
    with False g show ?thesis by simp
  qed
qed

lemma push_back_all_law:
  assumes "well_formed mem v" and "consistent mem" and "budget mem = None"
    and "(m_size v = 0 \<and> m_capacity v = 0) \<or> doubled (m_size v) (m_capacity v)"
  shows "\<exists>v' mem'. push_back_all tr xs v mem = (None, v', mem') \<and>
           well_formed mem' v' \<and> consistent mem' \<and> budget mem' = None \<and>
           m_size v' = m_size v + length xs \<and>
           ((m_size v' = 0 \<and> m_capacity v' = 0) \<or> doubled (m_size v') (m_capacity v'))"
  using assms
proof (induction xs arbitrary: v mem)
  case Nil
  then show ?case by simp
next
  case (Cons x xs)
  from push_back_calm [OF Cons.prems(1-3), of tr x]
  obtain v1 mem1 where p: "push_back tr x v mem = (None, v1, mem1)"
    and r: "well_formed mem1 v1" "consistent mem1" "budget mem1 = None"
    and s: "m_size v1 = m_size v + 1"
    and c: "m_capacity v1 =
             (if m_size v + 1 < m_capacity v then m_capacity v
              else grow_capacity (m_capacity v) (1 + m_size v))"
    by (elim exE conjE) (rule that, assumption+)
  have "doubled (m_size v1) (m_capacity v1)"
    using doubled_step [OF Cons.prems(4)] by (simp only: s c)
  then have d: "(m_size v1 = 0 \<and> m_capacity v1 = 0) \<or> doubled (m_size v1) (m_capacity v1)"
    by simp
  from Cons.IH [OF r d]
  obtain v' mem' where q: "push_back_all tr xs v1 mem1 = (None, v', mem')"
    and r': "well_formed mem' v'" "consistent mem'" "budget mem' = None"
      "m_size v' = m_size v1 + length xs"
      "(m_size v' = 0 \<and> m_capacity v' = 0) \<or> doubled (m_size v') (m_capacity v')"
    by (elim exE conjE) (rule that, assumption+)
  have "push_back_all tr (x # xs) v mem = (None, v', mem')"
    by (simp add: p q and_then_def)
  with r' s show ?case by simp
qed

text \<open>
  C1, as the code has it by design. (1) When a single-element \<^verbatim>\<open>emplace\<close> (append or
  insert at a position) overflows the capacity of a well-formed vector and no element
  operation throws, it completes and the new capacity is \<open>grow_capacity\<close> of the old
  capacity and \<open>size + 1\<close>. (2) \<open>grow_capacity\<close> is the old capacity (1 if it is zero)
  doubled at least once, and then as often as needed to reach the required size; for
  capacities that \<^verbatim>\<open>max_size()\<close> admits it stays below \<open>2 ^ 64\<close>. (3) From
  capacity 0, after \<open>k \<ge> 1\<close> appends with no exception the size is \<open>k\<close> and the capacity is
  a power of two, at least 2, at least \<open>k\<close> and at most \<open>2 k\<close>; so the first append gives
  capacity 2.
\<close>

theorem growth_policy_doubling:
  "(well_formed mem v \<and> consistent mem \<and> budget mem = None \<and> pos \<le> size_vec v \<and>
    capacity v < size_vec v + 1 \<longrightarrow>
      fst (emplace tr rv pos val v mem) = Inr pos \<and>
      size_vec (vec_of (emplace tr rv pos val v mem)) = size_vec v + 1 \<and>
      capacity (vec_of (emplace tr rv pos val v mem))
        = grow_capacity (capacity v) (size_vec v + 1)) \<and>
   (\<exists>j. 1 \<le> j \<and> grow_capacity cap required = (if cap = 0 then 1 else cap) * 2 ^ j \<and>
        required \<le> grow_capacity cap required \<and>
        (j = 1 \<or> (if cap = 0 then 1 else cap) * 2 ^ (j - 1) < required)) \<and>
   (cap \<le> max_size \<and> required \<le> max_size + 1 \<longrightarrow> grow_capacity cap required < 2 ^ 64) \<and>
   (well_formed mem v \<and> consistent mem \<and> budget mem = None \<and> capacity v = 0 \<and> xs \<noteq> [] \<longrightarrow>
      thrown (push_back_all tr xs v mem) = None \<and>
      size_vec (vec_of (push_back_all tr xs v mem)) = length xs \<and>
      (\<exists>n. capacity (vec_of (push_back_all tr xs v mem)) = 2 ^ n) \<and>
      2 \<le> capacity (vec_of (push_back_all tr xs v mem)) \<and>
      length xs \<le> capacity (vec_of (push_back_all tr xs v mem)) \<and>
      capacity (vec_of (push_back_all tr xs v mem)) \<le> 2 * length xs)"
proof (intro conjI impI)
  assume h: "well_formed mem v \<and> consistent mem \<and> budget mem = None \<and> pos \<le> size_vec v \<and>
    capacity v < size_vec v + 1"
  then have pos: "pos \<le> m_size v" and full: "\<not> m_size v + 1 < m_capacity v"
    by (simp_all add: size_vec_def capacity_def)
  from h emplace_calm [OF _ _ _ pos, of mem tr rv val]
  obtain v' mem' where e: "emplace tr rv pos val v mem = (Inr pos, v', mem')"
    and s: "m_size v' = m_size v + 1"
    and c: "m_capacity v' =
             (if m_size v + 1 < m_capacity v then m_capacity v
              else grow_capacity (m_capacity v) (1 + m_size v))"
    by blast
  show "fst (emplace tr rv pos val v mem) = Inr pos"
    and "size_vec (vec_of (emplace tr rv pos val v mem)) = size_vec v + 1"
    and "capacity (vec_of (emplace tr rv pos val v mem))
           = grow_capacity (capacity v) (size_vec v + 1)"
    using full by (simp_all add: e s c vec_of_def size_vec_def capacity_def)
next
  show "\<exists>j. 1 \<le> j \<and> grow_capacity cap required = (if cap = 0 then 1 else cap) * 2 ^ j \<and>
        required \<le> grow_capacity cap required \<and>
        (j = 1 \<or> (if cap = 0 then 1 else cap) * 2 ^ (j - 1) < required)"
    by (rule grow_capacity_doubling)
next
  assume "cap \<le> max_size \<and> required \<le> max_size + 1"
  then show "grow_capacity cap required < 2 ^ 64"
    by (elim conjE) (rule grow_capacity_no_wrap)
next
  assume h: "well_formed mem v \<and> consistent mem \<and> budget mem = None \<and> capacity v = 0 \<and> xs \<noteq> []"
  then have z: "m_size v = 0 \<and> m_capacity v = 0"
    by (auto simp: well_formed_def capacity_def split: option.splits)
  then have start: "(m_size v = 0 \<and> m_capacity v = 0) \<or> doubled (m_size v) (m_capacity v)"
    by simp
  from h push_back_all_law [OF _ _ _ start, of mem tr xs]
  obtain v' mem' where p: "push_back_all tr xs v mem = (None, v', mem')"
    and s: "m_size v' = m_size v + length xs"
    and d: "(m_size v' = 0 \<and> m_capacity v' = 0) \<or> doubled (m_size v') (m_capacity v')"
    by blast
  from h s z have "m_size v' \<noteq> 0" by simp
  with d obtain n where n: "m_capacity v' = 2 ^ n" "m_size v' < m_capacity v'"
    "m_capacity v' \<le> 2 * m_size v'"
    by (auto simp: doubled_def)
  have len: "m_size v' = length xs" using s z by simp
  have two: "2 \<le> m_capacity v'"
    using n(2) len h by (cases xs) simp_all
  show "thrown (push_back_all tr xs v mem) = None"
    and "size_vec (vec_of (push_back_all tr xs v mem)) = length xs"
    and "\<exists>n. capacity (vec_of (push_back_all tr xs v mem)) = 2 ^ n"
    and "2 \<le> capacity (vec_of (push_back_all tr xs v mem))"
    and "length xs \<le> capacity (vec_of (push_back_all tr xs v mem))"
    and "capacity (vec_of (push_back_all tr xs v mem)) \<le> 2 * length xs"
    using n two len by (simp_all add: p thrown_def vec_of_def size_vec_def capacity_def)
qed

theorem growth_policy_doubling_witness:
  "well_formed (empty_memory :: nat memory) (vector_default 0) \<and>
   consistent (empty_memory :: nat memory) \<and>
   budget (empty_memory :: nat memory) = None \<and>
   0 \<le> size_vec (vector_default 0) \<and>
   capacity (vector_default 0) < size_vec (vector_default 0) + 1 \<and>
   capacity (vector_default 0) = 0 \<and> [1, 2, 3 :: nat] \<noteq> [] \<and>
   (0::nat) \<le> max_size \<and> (1::nat) \<le> max_size + 1 \<and>
   capacity (vec_of (emplace std_traits False 0 7 (vector_default 0) (empty_memory :: nat memory)))
     = grow_capacity 0 1 \<and>
   grow_capacity 0 1 = 2 \<and>
   size_vec (vec_of (push_back_all std_traits [1, 2, 3] (vector_default 0)
                       (empty_memory :: nat memory))) = 3 \<and>
   3 \<le> capacity (vec_of (push_back_all std_traits [1, 2, 3] (vector_default 0)
                            (empty_memory :: nat memory))) \<and>
   capacity (vec_of (push_back_all std_traits [1, 2, 3] (vector_default 0)
                       (empty_memory :: nat memory))) \<le> 6"
proof -
  have h: "well_formed (empty_memory :: nat memory) (vector_default 0)"
    "consistent (empty_memory :: nat memory)"
    "budget (empty_memory :: nat memory) = None"
    "capacity (vector_default 0) = 0" "size_vec (vector_default 0) = 0"
    by (simp_all add: well_formed_def consistent_def empty_memory_def vector_default_def
        capacity_def size_vec_def)
  have g: "grow_capacity 0 1 = 2"
    by (subst grow_capacity_once) simp_all
  have m: "(0::nat) \<le> max_size" "(1::nat) \<le> max_size + 1"
    by simp_all
  show ?thesis
    using m growth_policy_doubling [of "empty_memory :: nat memory" "vector_default 0" 0
        std_traits False 7 0 1 "[1, 2, 3]"] h g
    by simp
qed

text \<open>
  The claim as stated fails: from capacity 0 the first append gives capacity 2, not 1, and
  the second gives capacity 4, not 2.
\<close>

theorem growth_first_append_counterexample:
  "capacity (vector_default 0) = 0 \<and>
   thrown (push_back_all std_traits [7] (vector_default 0) (empty_memory :: nat memory)) = None \<and>
   size_vec (vec_of (push_back_all std_traits [7] (vector_default 0)
                       (empty_memory :: nat memory))) = 1 \<and>
   capacity (vec_of (push_back_all std_traits [7] (vector_default 0)
                       (empty_memory :: nat memory))) = 2 \<and>
   thrown (push_back_all std_traits [7, 8] (vector_default 0) (empty_memory :: nat memory)) = None \<and>
   size_vec (vec_of (push_back_all std_traits [7, 8] (vector_default 0)
                       (empty_memory :: nat memory))) = 2 \<and>
   capacity (vec_of (push_back_all std_traits [7, 8] (vector_default 0)
                       (empty_memory :: nat memory))) = 4"
  by code_simp

end
